theory Spec2Isabelle
  imports Main "HOL-Library.Word"
begin

section \<open>Data model of lib/common/Timer.cpp\<close>

text \<open>
  The embedding follows the debug build (\<open>NDEBUG\<close> undefined) on a POSIX platform
  (the \<open>#else\<close> branches of \<open>WIN32\<close>): \<open>ASSERT\<close> is active and the
  \<open>TRACE\<close> macros emit events. A \<open>Timer*\<close> is an address; the objects live in an
  explicit store, because the set holds back-references to objects that are mutated
  through them.
\<close>

type_synonym addr = nat

text \<open>
  Modelled from the spec: \<open>box_time_t\<close> (declared in BoxTime.h, which is not part of the
  excerpt) is "a 64-bit count of microseconds". \<open>int64_t\<close> values are the same words
  read through \<open>sint\<close>.
\<close>

type_synonym box_time_t = "64 word"
type_synonym int64_t = "64 word"
type_synonym size_t = "64 word"

record Timer =
  mExpires :: box_time_t
  mExpired :: bool

record timeval =
  tv_sec :: "64 word"
  tv_usec :: "64 word"

datatype sighandler = SIG_DFL | Timers_SignalHandler

text \<open>
  The arguments of the \<open>TRACE\<close> calls, without the wall-clock stamps that prefix each
  line.
\<close>

datatype trace_event =
    TimerHasExpired addr
  | TimerNotExpired addr int64_t
  | CouldntInitialiseTimer
  | TimerInitialisedWillNotFire addr size_t
  | TimerInitialised addr size_t box_time_t
  | TimerDestroyed addr
  | TimerFromAlreadyExpired addr addr
  | TimerFromWillNotFire addr addr
  | TimerFrom addr addr box_time_t
  | TimerFired addr

text \<open>
  \<open>AssertFailed\<close>: an \<open>ASSERT\<close> that does not hold. \<open>CommonException_Internal\<close>:
  the \<open>THROW_EXCEPTION\<close> of \<open>Reschedule\<close>. \<open>UndefinedBehaviour\<close>: a dereference of
  a pointer to no live object, or the use of an iterator that the vector does not keep
  valid.
  \<open>CallbackException\<close>: whatever an override of \<open>OnExpire\<close> throws.
\<close>

datatype error =
    AssertFailed
  | CommonException_Internal
  | UndefinedBehaviour
  | CallbackException nat

text \<open>
  The process state. \<open>spTimers\<close> is \<open>None\<close> for the null pointer. \<open>it_value\<close> is
  what the last successful \<open>setitimer(ITIMER_REAL)\<close> programmed (all zero: disarmed).
  The environment is part of the state: the n-th call of \<open>GetCurrentBoxTime\<close> returns
  \<open>clock n\<close>, and \<open>setitimer_fails\<close> tells which requests the operating system
  rejects.
\<close>

record world =
  spTimers :: "addr list option"
  sRescheduleNeeded :: bool
  heap :: "addr \<Rightarrow> Timer option"
  it_value :: timeval
  sigalrm :: sighandler
  clock :: "nat \<Rightarrow> box_time_t"
  clock_reads :: nat
  setitimer_fails :: "timeval \<Rightarrow> bool"
  trace :: "trace_event list"

datatype result = Returns world | Throws error world

text \<open>
  \<open>OnExpire\<close> is virtual: the behaviour of the object at an address is a parameter
  of every operation that can dispatch.
\<close>

type_synonym callback = "addr \<Rightarrow> world \<Rightarrow> result"

definition TRACE :: "trace_event list \<Rightarrow> world \<Rightarrow> world" where
  "TRACE evs w = w\<lparr>trace := trace w @ evs\<rparr>"

subsection \<open>Clock source (BoxTime.h)\<close>

definition GetCurrentBoxTime :: "world \<Rightarrow> box_time_t \<times> world" where
  "GetCurrentBoxTime w = (clock w (clock_reads w), w\<lparr>clock_reads := Suc (clock_reads w)\<rparr>)"

text \<open>
  Modelled from the spec: the conversions of BoxTime.h, "SecondsToBoxTime(s) = s * 10^6;
  BoxTimeToSeconds(t) = t / 10^6 (truncating); BoxTimeToMicros(t) = t".
\<close>

definition MICRO_SEC_IN_SEC :: "64 word" where
  "MICRO_SEC_IN_SEC = 1000000"

definition SecondsToBoxTime :: "64 word \<Rightarrow> box_time_t" where
  "SecondsToBoxTime Seconds = Seconds * 1000000"

definition BoxTimeToSeconds :: "box_time_t \<Rightarrow> 64 word" where
  "BoxTimeToSeconds Time = Time div 1000000"

definition BoxTimeToMicroSeconds :: "box_time_t \<Rightarrow> 64 word" where
  "BoxTimeToMicroSeconds Time = Time"

subsection \<open>The vector of back-references\<close>

definition erase_at :: "nat \<Rightarrow> addr list \<Rightarrow> addr list" where
  "erase_at i v = take i v @ drop (Suc i) v"

subsection \<open>Timer::OnExpire\<close>

definition Timer_OnExpire :: callback where
  "Timer_OnExpire this w =
     (case heap w this of
        None \<Rightarrow> Throws UndefinedBehaviour w
      | Some t \<Rightarrow>
          Returns ((TRACE [TimerFired this] w)
            \<lparr>heap := (heap w)(this \<mapsto> t\<lparr>mExpired := True\<rparr>)\<rparr>))"

subsection \<open>Timers::Reschedule\<close>

text \<open>
  The \<open>for\<close> loop of lines 147 to 175: the trace lines of the timers passed over, and
  where the scan stopped.
\<close>

datatype scan = ScanEnd | ScanFound nat | ScanBadPointer

fun scan_expired ::
  "box_time_t \<Rightarrow> (addr \<Rightarrow> Timer option) \<Rightarrow> nat \<Rightarrow> addr list \<Rightarrow> trace_event list \<times> scan" where
  "scan_expired timeNow h i [] = ([], ScanEnd)"
| "scan_expired timeNow h i (p # ps) =
     (case h p of
        None \<Rightarrow> ([], ScanBadPointer)
      | Some rTimer \<Rightarrow>
          (let timeToExpiry = mExpires rTimer - timeNow in
           if sint timeToExpiry \<le> 0 then ([TimerHasExpired p], ScanFound i)
           else (case scan_expired timeNow h (Suc i) ps of
                   (tr, r) \<Rightarrow> (TimerNotExpired p timeToExpiry # tr, r))))"

text \<open>
  The \<open>while (restart)\<close> loop of lines 142 to 176. The iterator \<open>i\<close> of line 147 is
  taken before \<open>OnExpire\<close> runs (line 160) and is used by \<open>erase(i)\<close> after it (line
  161). A \<open>std::vector\<close> guarantees the iterator only while no \<open>push_back\<close>
  reallocates and no \<open>erase\<close> happens at or before its position; a callback changes the
  vector through \<open>Timers::Add\<close> and \<open>Timers::Remove\<close>, and each of them runs
  \<open>Reschedule\<close>, whose expiry pass erases. The state has neither the capacity of the
  vector nor the positions of the edits a callback made: \<open>erase(i)\<close> is defined when the
  callback returns with the vector it was called with, which is taken to mean that the
  callback left the vector alone, and is \<open>UndefinedBehaviour\<close> after any other callback.
\<close>

partial_function (option) expiry_pass :: "callback \<Rightarrow> box_time_t \<Rightarrow> world \<Rightarrow> result option" where
  "expiry_pass OnExpire timeNow w =
     (case spTimers w of
        None \<Rightarrow> Some (Throws UndefinedBehaviour w)
      | Some v \<Rightarrow>
          (case scan_expired timeNow (heap w) 0 v of
             (tr, ScanEnd) \<Rightarrow> Some (Returns (TRACE tr w))
           | (tr, ScanBadPointer) \<Rightarrow> Some (Throws UndefinedBehaviour (TRACE tr w))
           | (tr, ScanFound i) \<Rightarrow>
               (case OnExpire (v ! i) (TRACE tr w) of
                  Throws e w' \<Rightarrow> Some (Throws e w')
                | Returns w' \<Rightarrow>
                    if spTimers w' = Some v
                    then expiry_pass OnExpire timeNow (w'\<lparr>spTimers := Some (erase_at i v)\<rparr>)
                    else Some (Throws UndefinedBehaviour w'))))"

text \<open>The selection loop of lines 181 to 198.\<close>

fun select_next ::
  "box_time_t \<Rightarrow> (addr \<Rightarrow> Timer option) \<Rightarrow> int64_t \<Rightarrow> addr list \<Rightarrow> int64_t option" where
  "select_next timeNow h timeToNextEvent [] = Some timeToNextEvent"
| "select_next timeNow h timeToNextEvent (p # ps) =
     (case h p of
        None \<Rightarrow> None
      | Some rTimer \<Rightarrow>
          (let timeToExpiry0 = mExpires rTimer - timeNow;
               timeToExpiry = (if sint timeToExpiry0 \<le> 0 then 1 else timeToExpiry0)
           in select_next timeNow h
                (if timeToNextEvent = 0 \<or> sint timeToNextEvent > sint timeToExpiry
                 then timeToExpiry else timeToNextEvent) ps))"

text \<open>Lines 181 to 213: selection, the assertion, and the call of \<open>setitimer\<close>.\<close>

definition make_timeout :: "int64_t \<Rightarrow> timeval" where
  "make_timeout timeToNextEvent =
     \<lparr>tv_sec = BoxTimeToSeconds timeToNextEvent,
      tv_usec = scast (ucast (BoxTimeToMicroSeconds timeToNextEvent mod MICRO_SEC_IN_SEC) :: 32 word)\<rparr>"

definition arm_next :: "box_time_t \<Rightarrow> world \<Rightarrow> result" where
  "arm_next timeNow w =
     (case spTimers w of
        None \<Rightarrow> Throws UndefinedBehaviour w
      | Some v \<Rightarrow>
          (case select_next timeNow (heap w) 0 v of
             None \<Rightarrow> Throws UndefinedBehaviour w
           | Some timeToNextEvent \<Rightarrow>
               if \<not> 0 \<le> sint timeToNextEvent then Throws AssertFailed w
               else if setitimer_fails w (make_timeout timeToNextEvent)
               then Throws CommonException_Internal (TRACE [CouldntInitialiseTimer] w)
               else Returns (w\<lparr>it_value := make_timeout timeToNextEvent\<rparr>)))"

definition Reschedule :: "callback \<Rightarrow> world \<Rightarrow> result option" where
  "Reschedule OnExpire w =
     (case spTimers w of
        None \<Rightarrow> Some (Throws AssertFailed w)
      | Some _ \<Rightarrow>
          (case GetCurrentBoxTime (w\<lparr>sRescheduleNeeded := False\<rparr>) of
             (timeNow, w1) \<Rightarrow>
               (case expiry_pass OnExpire timeNow w1 of
                  None \<Rightarrow> None
                | Some (Throws e w2) \<Rightarrow> Some (Throws e w2)
                | Some (Returns w2) \<Rightarrow> Some (arm_next timeNow w2))))"

subsection \<open>Timers: Init, Cleanup, Add, Remove, SignalHandler\<close>

text \<open>
  \<open>signal(SIGALRM, h)\<close> installs \<open>h\<close> and returns the handler it replaced; the call
  stands inside the \<open>ASSERT\<close>, so it has happened when the assertion fails.
\<close>

definition Timers_Init :: "world \<Rightarrow> result" where
  "Timers_Init w =
     (if spTimers w \<noteq> None then Throws AssertFailed w
      else (let w1 = w\<lparr>sigalrm := Timers_SignalHandler\<rparr> in
            if sigalrm w \<noteq> SIG_DFL then Throws AssertFailed w1
            else Returns (w1\<lparr>spTimers := Some []\<rparr>)))"

definition Timers_Cleanup :: "world \<Rightarrow> result" where
  "Timers_Cleanup w =
     (if spTimers w = None then Throws AssertFailed w
      else if setitimer_fails w \<lparr>tv_sec = 0, tv_usec = 0\<rparr> then Throws AssertFailed w
      else (let w1 = w\<lparr>it_value := \<lparr>tv_sec = 0, tv_usec = 0\<rparr>\<rparr>;
                w2 = w1\<lparr>sigalrm := SIG_DFL\<rparr>
            in if sigalrm w1 \<noteq> Timers_SignalHandler then Throws AssertFailed w2
               else Returns (w2\<lparr>spTimers := None\<rparr>)))"

definition Timers_Add :: "callback \<Rightarrow> addr \<Rightarrow> world \<Rightarrow> result option" where
  "Timers_Add OnExpire rTimer w =
     (case spTimers w of
        None \<Rightarrow> Some (Throws AssertFailed w)
      | Some v \<Rightarrow> Reschedule OnExpire (w\<lparr>spTimers := Some (v @ [rTimer])\<rparr>))"

text \<open>The \<open>for\<close> loop of lines 105 to 114: the position of the first match.\<close>

fun find_timer :: "addr \<Rightarrow> nat \<Rightarrow> addr list \<Rightarrow> nat option" where
  "find_timer rTimer i [] = None"
| "find_timer rTimer i (p # ps) =
     (if rTimer = p then Some i else find_timer rTimer (Suc i) ps)"

text \<open>The \<open>while (restart)\<close> loop of lines 101 to 115.\<close>

function remove_loop :: "addr \<Rightarrow> addr list \<Rightarrow> addr list" where
  "remove_loop rTimer v =
     (case find_timer rTimer 0 v of
        None \<Rightarrow> v
      | Some i \<Rightarrow> remove_loop rTimer (erase_at i v))"
  by pat_completeness auto
termination
proof (relation "measure (\<lambda>(rTimer, v). length v)")
  show "wf (measure (\<lambda>(rTimer, v). length v))"
    by simp
next
  fix rTimer :: addr and v :: "addr list" and i :: nat
  assume found: "find_timer rTimer 0 v = Some i"
  have "find_timer rTimer k u = Some j \<Longrightarrow> j < k + length u" for k j u
    by (induction u arbitrary: k) (fastforce split: if_splits)+
  from this [OF found] have "i < length v"
    by simp
  then show "((rTimer, erase_at i v), (rTimer, v)) \<in> measure (\<lambda>(rTimer, v). length v)"
    by (simp add: erase_at_def)
qed

declare remove_loop.simps [simp del]

definition Timers_Remove :: "callback \<Rightarrow> addr \<Rightarrow> world \<Rightarrow> result option" where
  "Timers_Remove OnExpire rTimer w =
     (case spTimers w of
        None \<Rightarrow> Some (Throws AssertFailed w)
      | Some v \<Rightarrow> Reschedule OnExpire (w\<lparr>spTimers := Some (remove_loop rTimer v)\<rparr>))"

text \<open>
  Modelled from the spec: \<open>Timers::RequestReschedule\<close> and the poll hook are defined
  in Timer.h, which is not part of the excerpt. "RequestReschedule() sets a flag";
  "PollIfNeeded(): if the reschedule-requested flag is set, call Reschedule".
\<close>

definition RequestReschedule :: "world \<Rightarrow> world" where
  "RequestReschedule w = w\<lparr>sRescheduleNeeded := True\<rparr>"

definition PollIfNeeded :: "callback \<Rightarrow> world \<Rightarrow> result option" where
  "PollIfNeeded OnExpire w =
     (if sRescheduleNeeded w then Reschedule OnExpire w else Some (Returns w))"

definition SignalHandler :: "world \<Rightarrow> world" where
  "SignalHandler w = RequestReschedule w"

subsection \<open>Timer: constructors, destructor, assignment\<close>

text \<open>
  \<open>this\<close> is the address at which the object is constructed. Modelled from the spec:
  \<open>GetExpiryTime\<close> (Timer.h) reads \<open>expires_at\<close>, the field \<open>mExpires\<close>.
\<close>

definition Timer_ctor :: "callback \<Rightarrow> addr \<Rightarrow> size_t \<Rightarrow> world \<Rightarrow> result option" where
  "Timer_ctor OnExpire this timeoutSecs w =
     (case GetCurrentBoxTime w of
        (timeNow, w1) \<Rightarrow>
          (let obj = \<lparr>mExpires = timeNow + SecondsToBoxTime timeoutSecs, mExpired = False\<rparr>;
               w2 = w1\<lparr>heap := (heap w1)(this \<mapsto> obj)\<rparr>
           in if timeoutSecs = 0
              then Some (Returns ((TRACE [TimerInitialisedWillNotFire this timeoutSecs] w2)
                     \<lparr>heap := (heap w2)(this \<mapsto> obj\<lparr>mExpires := 0\<rparr>)\<rparr>))
              else Timers_Add OnExpire this
                     (TRACE [TimerInitialised this timeoutSecs (mExpires obj)] w2)))"

definition Timer_dtor :: "callback \<Rightarrow> addr \<Rightarrow> world \<Rightarrow> result option" where
  "Timer_dtor OnExpire this w =
     (case Timers_Remove OnExpire this (TRACE [TimerDestroyed this] w) of
        None \<Rightarrow> None
      | Some (Throws e w') \<Rightarrow> Some (Throws e w')
      | Some (Returns w') \<Rightarrow> Some (Returns (w'\<lparr>heap := (heap w')(this := None)\<rparr>)))"

definition copy_trace :: "addr \<Rightarrow> addr \<Rightarrow> Timer \<Rightarrow> trace_event" where
  "copy_trace this rToCopy src =
     (if mExpired src then TimerFromAlreadyExpired this rToCopy
      else if mExpires src = 0 then TimerFromWillNotFire this rToCopy
      else TimerFrom this rToCopy (mExpires src))"

definition Timer_copy :: "callback \<Rightarrow> addr \<Rightarrow> addr \<Rightarrow> world \<Rightarrow> result option" where
  "Timer_copy OnExpire this rToCopy w =
     (case heap w rToCopy of
        None \<Rightarrow> Some (Throws UndefinedBehaviour w)
      | Some src \<Rightarrow>
          (let obj = \<lparr>mExpires = mExpires src, mExpired = mExpired src\<rparr>;
               w1 = TRACE [copy_trace this rToCopy obj] (w\<lparr>heap := (heap w)(this \<mapsto> obj)\<rparr>)
           in if \<not> mExpired obj \<and> mExpires obj \<noteq> 0
              then Timers_Add OnExpire this w1
              else Some (Returns w1)))"

definition Timer_assign :: "callback \<Rightarrow> addr \<Rightarrow> addr \<Rightarrow> world \<Rightarrow> result option" where
  "Timer_assign OnExpire this rToCopy w =
     (case (heap w this, heap w rToCopy) of
        (Some _, Some src0) \<Rightarrow>
          (case Timers_Remove OnExpire this (TRACE [copy_trace this rToCopy src0] w) of
             None \<Rightarrow> None
           | Some (Throws e w1) \<Rightarrow> Some (Throws e w1)
           | Some (Returns w1) \<Rightarrow>
               (case (heap w1 this, heap w1 rToCopy) of
                  (Some _, Some src) \<Rightarrow>
                    (let obj = \<lparr>mExpires = mExpires src, mExpired = mExpired src\<rparr>;
                         w2 = w1\<lparr>heap := (heap w1)(this \<mapsto> obj)\<rparr>
                     in if \<not> mExpired obj \<and> mExpires obj \<noteq> 0
                        then Timers_Add OnExpire this w2
                        else Some (Returns w2))
                | _ \<Rightarrow> Some (Throws UndefinedBehaviour w1)))
      | _ \<Rightarrow> Some (Throws UndefinedBehaviour w))"

section \<open>Notions used in the statements\<close>

text \<open>
  The test of line 153, \<open>timeToExpiry <= 0\<close>, for the object at an address: the
  difference of the two 64-bit counts, read as \<open>int64_t\<close>.
\<close>

definition expired_at :: "box_time_t \<Rightarrow> (addr \<Rightarrow> Timer option) \<Rightarrow> addr \<Rightarrow> bool" where
  "expired_at timeNow h p =
     (case h p of None \<Rightarrow> False | Some t \<Rightarrow> sint (mExpires t - timeNow) \<le> 0)"

definition time_to_expiry :: "box_time_t \<Rightarrow> world \<Rightarrow> addr \<Rightarrow> int" where
  "time_to_expiry timeNow w p =
     (case heap w p of None \<Rightarrow> 0 | Some t \<Rightarrow> sint (mExpires t - timeNow))"

definition members :: "world \<Rightarrow> addr list" where
  "members w = (case spTimers w of None \<Rightarrow> [] | Some v \<Rightarrow> v)"


text \<open>The reading the next call of \<open>GetCurrentBoxTime\<close> returns.\<close>

definition next_reading :: "world \<Rightarrow> box_time_t" where
  "next_reading w = clock w (clock_reads w)"

text \<open>
  What the expiry pass does to the store when every callback is \<open>Timer::OnExpire\<close>:
  the members that are due get their flag set.
\<close>

definition fire_all ::
  "box_time_t \<Rightarrow> (addr \<Rightarrow> Timer option) \<Rightarrow> addr list \<Rightarrow> addr \<Rightarrow> Timer option" where
  "fire_all timeNow h v =
     (\<lambda>p. if p \<in> set v \<and> expired_at timeNow h p
          then map_option (\<lambda>t. t\<lparr>mExpired := True\<rparr>) (h p) else h p)"

definition same_env :: "world \<Rightarrow> world \<Rightarrow> bool" where
  "same_env w w' \<longleftrightarrow>
     sRescheduleNeeded w' = sRescheduleNeeded w \<and> it_value w' = it_value w \<and>
     sigalrm w' = sigalrm w \<and> clock w' = clock w \<and> clock_reads w' = clock_reads w \<and>
     setitimer_fails w' = setitimer_fails w"

definition world_of :: "result \<Rightarrow> world" where
  "world_of r = (case r of Returns w \<Rightarrow> w | Throws e w \<Rightarrow> w)"

text \<open>
  A callback that fails, with an error of the model's own, when it is called for a timer
  that is not in the set at that moment, and otherwise is the given callback.
\<close>

definition while_member :: "callback \<Rightarrow> callback" where
  "while_member OnExpire this w =
     (if this \<in> set (members w) then OnExpire this w else Throws UndefinedBehaviour w)"

text \<open>Callbacks that return with the vector of back-references as they found it.\<close>

definition keeps_set :: "callback \<Rightarrow> bool" where
  "keeps_set OnExpire \<longleftrightarrow> (\<forall>a u u'. OnExpire a u = Returns u' \<longrightarrow> spTimers u' = spTimers u)"

subsection \<open>A signal during \<open>Reschedule\<close>\<close>

text \<open>
  \<open>SIGALRM\<close> is asynchronous: \<open>Timers::SignalHandler\<close> may run between any two
  statements of \<open>Reschedule\<close>. The handler only stores to \<open>sRescheduleNeeded\<close>, and after
  the store of line 136 \<open>Reschedule\<close> neither reads nor writes that variable, so what
  matters of the moment of delivery is which of the following it falls into: after the
  flag is cleared and before the clock is read (line 138); after the clock is read and
  before the expiry loop; while the \<open>OnExpire\<close> of a given timer runs (line 160); after
  the expiry loop and before the selection loop (line 181); after \<open>setitimer\<close> and before
  \<open>Reschedule\<close> is left.
\<close>

datatype arrival =
  BeforeClockRead | BeforeScan | DuringOnExpire addr | BeforeSelection | BeforeReturn

text \<open>
  \<open>arrives pt here w\<close>: the state at the point \<open>here\<close> of a run in which the signal is
  delivered at \<open>pt\<close>, or not at all when \<open>pt\<close> is \<open>None\<close>.
\<close>

definition arrives :: "arrival option \<Rightarrow> arrival \<Rightarrow> world \<Rightarrow> world" where
  "arrives pt here w = (if pt = Some here then SignalHandler w else w)"

definition notify_result :: "arrival option \<Rightarrow> arrival \<Rightarrow> result \<Rightarrow> result" where
  "notify_result pt here r =
     (case r of
        Returns w \<Rightarrow> Returns (arrives pt here w)
      | Throws e w \<Rightarrow> Throws e (arrives pt here w))"

text \<open>The callback during whose run for the timer named by \<open>pt\<close> the signal is delivered.\<close>

definition notified :: "arrival option \<Rightarrow> callback \<Rightarrow> callback" where
  "notified pt OnExpire this w = notify_result pt (DuringOnExpire this) (OnExpire this w)"

text \<open>
  \<open>Timers::Reschedule\<close>, lines 128 to 214, statement by statement as in \<open>Reschedule\<close>
  above, with the signal delivered at \<open>pt\<close>.
\<close>

definition Reschedule_notified :: "arrival option \<Rightarrow> callback \<Rightarrow> world \<Rightarrow> result option" where
  "Reschedule_notified pt OnExpire w =
     (case spTimers w of
        None \<Rightarrow> Some (Throws AssertFailed w)
      | Some _ \<Rightarrow>
          (case GetCurrentBoxTime (arrives pt BeforeClockRead (w\<lparr>sRescheduleNeeded := False\<rparr>)) of
             (timeNow, w1) \<Rightarrow>
               (case expiry_pass (notified pt OnExpire) timeNow (arrives pt BeforeScan w1) of
                  None \<Rightarrow> None
                | Some (Throws e w2) \<Rightarrow> Some (Throws e w2)
                | Some (Returns w2) \<Rightarrow>
                    Some (notify_result pt BeforeReturn
                            (arm_next timeNow (arrives pt BeforeSelection w2))))))"

text \<open>
  Whether a run of \<open>Reschedule\<close> from \<open>w\<close> with \<open>Timer::OnExpire\<close> as every callback, and
  with \<open>timeNow\<close> as its clock reading, comes to the point \<open>pt\<close>: the callback of a
  timer runs when the timer is a member that is due.
\<close>

definition reached :: "arrival \<Rightarrow> box_time_t \<Rightarrow> world \<Rightarrow> bool" where
  "reached pt timeNow w =
     (case pt of
        DuringOnExpire a \<Rightarrow> a \<in> set (members w) \<and> expired_at timeNow (heap w) a
      | _ \<Rightarrow> True)"

text \<open>The environment apart from the reschedule-requested flag.\<close>

definition same_os :: "world \<Rightarrow> world \<Rightarrow> bool" where
  "same_os w w' \<longleftrightarrow>
     it_value w' = it_value w \<and> sigalrm w' = sigalrm w \<and> clock w' = clock w \<and>
     clock_reads w' = clock_reads w \<and> setitimer_fails w' = setitimer_fails w"

subsection \<open>Timer values\<close>

text \<open>
  The test of the constructors and of \<open>operator=\<close> for calling \<open>Timers::Add\<close>
  (\<open>!mExpired && mExpires != 0\<close>), the test of the expiry pass (\<open>timeToExpiry <= 0\<close>) on
  a Timer value, and the value \<open>Timer::OnExpire\<close> leaves.
\<close>

definition eligible :: "Timer \<Rightarrow> bool" where
  "eligible t \<longleftrightarrow> \<not> mExpired t \<and> mExpires t \<noteq> 0"

definition due_at :: "box_time_t \<Rightarrow> Timer \<Rightarrow> bool" where
  "due_at timeNow t \<longleftrightarrow> sint (mExpires t - timeNow) \<le> 0"

definition fired :: "Timer \<Rightarrow> Timer" where
  "fired t = t\<lparr>mExpired := True\<rparr>"

section \<open>Example states\<close>

text \<open>
  The state after \<open>Timers::Init\<close> with a clock that stands at one second, an operating
  system that accepts every request, and no timer.
\<close>

definition base_world :: world where
  "base_world =
     \<lparr>spTimers = Some [], sRescheduleNeeded = False, heap = (\<lambda>p. None),
      it_value = \<lparr>tv_sec = 0, tv_usec = 0\<rparr>, sigalrm = Timers_SignalHandler,
      clock = (\<lambda>n. 1000000), clock_reads = 0, setitimer_fails = (\<lambda>tv. False), trace = []\<rparr>"

text \<open>Two armed timers: one due in one microsecond, the other in two and a half seconds.\<close>

definition two_timers :: world where
  "two_timers = base_world
     \<lparr>spTimers := Some [1, 2],
      heap := (\<lambda>p. if p = 1 then Some \<lparr>mExpires = 1000001, mExpired = False\<rparr>
                  else if p = 2 then Some \<lparr>mExpires = 3500000, mExpired = False\<rparr> else None)\<rparr>"

text \<open>
  Three armed timers at the clock reading 1000000: the first with its deadline exactly
  at the reading, the second one microsecond in the past, the third a second ahead.
\<close>

definition due_world :: world where
  "due_world = base_world
     \<lparr>spTimers := Some [1, 2, 3],
      heap := (\<lambda>p. if p = 1 then Some \<lparr>mExpires = 1000000, mExpired = False\<rparr>
                  else if p = 2 then Some \<lparr>mExpires = 999999, mExpired = False\<rparr>
                  else if p = 3 then Some \<lparr>mExpires = 2000000, mExpired = False\<rparr> else None)\<rparr>"





text \<open>An override of \<open>OnExpire\<close> that throws at once.\<close>

definition throwing_callback :: callback where
  "throwing_callback this w = Throws (CallbackException 0) w"

text \<open>A set with one member whose \<open>expires_at\<close> is the sentinel 0.\<close>

definition sentinel_world :: world where
  "sentinel_world = base_world
     \<lparr>spTimers := Some [1],
      heap := (\<lambda>p. if p = 1 then Some \<lparr>mExpires = 0, mExpired = False\<rparr> else None)\<rparr>"

text \<open>The state \<open>two_timers\<close> after \<open>Timers::Cleanup\<close>: both Timer objects outlive the set.\<close>

definition cleaned_up :: world where
  "cleaned_up = two_timers\<lparr>it_value := \<lparr>tv_sec = 0, tv_usec = 0\<rparr>, sigalrm := SIG_DFL, spTimers := None\<rparr>"

text \<open>Timer 1 registered twice, beside timer 2; both deadlines are ahead.\<close>

definition dup_world :: world where
  "dup_world = base_world
     \<lparr>spTimers := Some [1, 2, 1],
      heap := (\<lambda>p. if p = 1 then Some \<lparr>mExpires = 5000000, mExpired = False\<rparr>
                  else if p = 2 then Some \<lparr>mExpires = 3500000, mExpired = False\<rparr> else None)\<rparr>"

text \<open>
  Timer 1 is armed for a deadline ahead; timer 2 is a member whose deadline passed one
  microsecond ago and that has not been dispatched yet.
\<close>

definition overdue_world :: world where
  "overdue_world = base_world
     \<lparr>spTimers := Some [1, 2],
      heap := (\<lambda>p. if p = 1 then Some \<lparr>mExpires = 5000000, mExpired = False\<rparr>
                  else if p = 2 then Some \<lparr>mExpires = 999999, mExpired = False\<rparr> else None)\<rparr>"

text \<open>The state \<open>overdue_world\<close> after the assignment of timer 2 to timer 1.\<close>

definition overdue_assigned :: world where
  "overdue_assigned = base_world
     \<lparr>spTimers := Some [],
      heap := (\<lambda>p. if p = 1 then Some \<lparr>mExpires = 999999, mExpired = True\<rparr>
                  else if p = 2 then Some \<lparr>mExpires = 999999, mExpired = True\<rparr> else None),
      clock_reads := 1,
      trace := [TimerFrom 1 2 999999, TimerHasExpired 2, TimerFired 2]\<rparr>"

text \<open>The state \<open>overdue_world\<close> after a Timer at address 3 was copy-constructed from timer 2.\<close>

definition overdue_copied :: world where
  "overdue_copied = base_world
     \<lparr>spTimers := Some [1],
      heap := (\<lambda>p. if p = 1 then Some \<lparr>mExpires = 5000000, mExpired = False\<rparr>
                  else if p = 2 then Some \<lparr>mExpires = 999999, mExpired = True\<rparr>
                  else if p = 3 then Some \<lparr>mExpires = 999999, mExpired = True\<rparr> else None),
      it_value := \<lparr>tv_sec = 4, tv_usec = 0\<rparr>,
      clock_reads := 1,
      trace := [TimerFrom 3 2 999999, TimerNotExpired 1 4000000, TimerHasExpired 2, TimerFired 2,
                TimerNotExpired 1 4000000, TimerHasExpired 3, TimerFired 3,
                TimerNotExpired 1 4000000]\<rparr>"

text \<open>
  The three timers of \<open>due_world\<close> with a clock that reads one second at the first
  reading and four seconds from the second reading on.
\<close>

definition late_clock :: world where
  "late_clock = due_world\<lparr>clock := (\<lambda>n. if n = 0 then 1000000 else 4000000)\<rparr>"

text \<open>
  The state \<open>base_world\<close> after a Timer was constructed at address 1 with a timeout of
  9223372036855 seconds.
\<close>

definition big_T_after :: world where
  "big_T_after = base_world
     \<lparr>heap := (\<lambda>p. if p = 1 then Some \<lparr>mExpires = 9223372036856000000, mExpired = True\<rparr> else None),
      clock_reads := 2,
      trace := [TimerInitialised 1 9223372036855 9223372036856000000,
                TimerHasExpired 1, TimerFired 1]\<rparr>"

text \<open>
  A clock that reads one second at the first reading and five seconds from the second
  reading on, and that state after a Timer was constructed at address 1 with a timeout
  of two seconds.
\<close>

definition jump_clock :: world where
  "jump_clock = base_world\<lparr>clock := (\<lambda>n. if n = 0 then 1000000 else 5000000)\<rparr>"

definition jump_clock_after :: world where
  "jump_clock_after = jump_clock
     \<lparr>heap := (\<lambda>p. if p = 1 then Some \<lparr>mExpires = 3000000, mExpired = True\<rparr> else None),
      clock_reads := 2,
      trace := [TimerInitialised 1 2 3000000, TimerHasExpired 1, TimerFired 1]\<rparr>"

section \<open>Auxiliary facts\<close>

lemma TRACE_simps [simp]:
  "spTimers (TRACE evs w) = spTimers w"
  "heap (TRACE evs w) = heap w"
  "sRescheduleNeeded (TRACE evs w) = sRescheduleNeeded w"
  "it_value (TRACE evs w) = it_value w"
  "sigalrm (TRACE evs w) = sigalrm w"
  "clock (TRACE evs w) = clock w"
  "clock_reads (TRACE evs w) = clock_reads w"
  "setitimer_fails (TRACE evs w) = setitimer_fails w"
  "trace (TRACE evs w) = trace w @ evs"
  by (simp_all add: TRACE_def)

lemma length_erase_at: "i < length v \<Longrightarrow> length (erase_at i v) < length v"
  by (simp add: erase_at_def)

lemma set_erase_at: "set (erase_at i v) \<subseteq> set v"
proof -
  have "set (take i v) \<subseteq> set v" by (rule set_take_subset)
  moreover have "set (drop (Suc i) v) \<subseteq> set v" by (rule set_drop_subset)
  ultimately show ?thesis by (simp add: erase_at_def)
qed

lemma erase_at_Cons_Suc: "erase_at (Suc i) (p # ps) = p # erase_at i ps"
  by (simp add: erase_at_def)

lemma erase_at_0: "erase_at 0 (p # ps) = ps"
  by (simp add: erase_at_def)

lemma filter_erase_at:
  "i < length v \<Longrightarrow> \<not> P (v ! i) \<Longrightarrow> filter P (erase_at i v) = filter P v"
proof (induction v arbitrary: i)
  case Nil
  then show ?case by simp
next
  case (Cons p ps)
  then show ?case
    by (cases i) (simp_all add: erase_at_0 erase_at_Cons_Suc)
qed

lemma set_erase_at_other:
  "i < length v \<Longrightarrow> q \<noteq> v ! i \<Longrightarrow> q \<in> set (erase_at i v) \<longleftrightarrow> q \<in> set v"
proof (induction v arbitrary: i)
  case Nil
  then show ?case by simp
next
  case (Cons p ps)
  then show ?case
    by (cases i) (auto simp add: erase_at_0 erase_at_Cons_Suc)
qed

lemma find_timer_None: "find_timer t i v = None \<longleftrightarrow> t \<notin> set v"
  by (induction v arbitrary: i) auto

lemma find_timer_Some:
  "find_timer t i v = Some j \<Longrightarrow> i \<le> j \<and> j - i < length v \<and> v ! (j - i) = t"
proof (induction v arbitrary: i)
  case Nil
  then show ?case by simp
next
  case (Cons p ps)
  show ?case
  proof (cases "t = p")
    case True
    with Cons.prems show ?thesis by simp
  next
    case False
    with Cons.prems have r: "find_timer t (Suc i) ps = Some j" by simp
    from Cons.IH [OF r] have "Suc i \<le> j" "j - Suc i < length ps" "ps ! (j - Suc i) = t"
      by auto
    moreover from \<open>Suc i \<le> j\<close> have "j - i = Suc (j - Suc i)" by simp
    ultimately show ?thesis by simp
  qed
qed

lemma remove_loop_filter: "remove_loop t v = filter (\<lambda>p. p \<noteq> t) v"
proof (induction t v rule: remove_loop.induct)
  case (1 t v)
  show ?case
  proof (cases "find_timer t 0 v")
    case None
    then have "t \<notin> set v" by (simp add: find_timer_None)
    then have "filter (\<lambda>p. p \<noteq> t) v = v" by (induction v) auto
    with None show ?thesis by (simp add: remove_loop.simps)
  next
    case (Some i)
    from find_timer_Some [OF Some] have i: "i < length v" "v ! i = t" by auto
    have "remove_loop t v = remove_loop t (erase_at i v)"
      using Some by (subst remove_loop.simps) simp
    also have "\<dots> = filter (\<lambda>p. p \<noteq> t) (erase_at i v)"
      using "1.IH" [OF Some] .
    also have "\<dots> = filter (\<lambda>p. p \<noteq> t) v"
      using i by (intro filter_erase_at) auto
    finally show ?thesis .
  qed
qed

lemma scan_expired_Bad:
  "scan_expired timeNow h i v = (tr, ScanBadPointer) \<Longrightarrow> \<exists>p\<in>set v. h p = None"
  by (induction v arbitrary: i tr) (auto split: option.splits if_splits prod.splits simp: Let_def)

lemma scan_expired_End:
  "scan_expired timeNow h i v = (tr, ScanEnd) \<Longrightarrow>
     (\<forall>p\<in>set v. \<exists>t. h p = Some t \<and> 0 < sint (mExpires t - timeNow))"
  by (induction v arbitrary: i tr) (auto split: option.splits if_splits prod.splits simp: Let_def)

lemma scan_expired_none_due:
  "\<forall>p\<in>set v. \<exists>t. h p = Some t \<and> 0 < sint (mExpires t - timeNow) \<Longrightarrow>
   scan_expired timeNow h i v = (map (\<lambda>p. TimerNotExpired p (mExpires (the (h p)) - timeNow)) v, ScanEnd)"
  by (induction v arbitrary: i) (auto split: option.splits prod.splits simp: Let_def)

lemma expiry_pass_none_due:
  assumes "spTimers w = Some v"
    and "\<forall>p\<in>set v. \<exists>t. heap w p = Some t \<and> 0 < sint (mExpires t - timeNow)"
  shows "expiry_pass cb timeNow w =
    Some (Returns (TRACE (map (\<lambda>p. TimerNotExpired p (mExpires (the (heap w p)) - timeNow)) v) w))"
  using assms by (subst expiry_pass.simps) (simp add: scan_expired_none_due)

lemma expiry_pass_post_aux:
  "expiry_pass cb timeNow w = Some r \<Longrightarrow>
     (\<forall>w'. r = Returns w' \<longrightarrow> (\<exists>v'. spTimers w' = Some v' \<and>
       (\<forall>p\<in>set v'. \<exists>t. heap w' p = Some t \<and> 0 < sint (mExpires t - timeNow))))"
  apply (erule expiry_pass.raw_induct [rotated])
  apply (auto split: option.splits prod.splits scan.splits result.splits if_splits
        dest: scan_expired_End)
  done

lemma expiry_pass_post:
  "expiry_pass cb timeNow w = Some (Returns w') \<Longrightarrow>
     \<exists>v'. spTimers w' = Some v' \<and>
       (\<forall>p\<in>set v'. \<exists>t. heap w' p = Some t \<and> 0 < sint (mExpires t - timeNow))"
  using expiry_pass_post_aux by blast

lemma scan_expired_Found:
  "scan_expired timeNow h i v = (tr, ScanFound j) \<Longrightarrow>
     i \<le> j \<and> j - i < length v \<and> expired_at timeNow h (v ! (j - i)) \<and>
     (\<forall>k < j - i. \<not> expired_at timeNow h (v ! k) \<and> h (v ! k) \<noteq> None) \<and>
     tr = map (\<lambda>p. TimerNotExpired p (mExpires (the (h p)) - timeNow)) (take (j - i) v) @ [TimerHasExpired (v ! (j - i))]"
proof (induction v arbitrary: i tr)
  case Nil
  then show ?case by simp
next
  case (Cons p ps)
  show ?case
  proof (cases "h p")
    case None
    with Cons.prems show ?thesis by simp
  next
    case (Some t)
    show ?thesis
    proof (cases "sint (mExpires t - timeNow) \<le> 0")
      case True
      with Some Cons.prems show ?thesis by (auto simp: expired_at_def)
    next
      case False
      with Some Cons.prems obtain tr' where
        r: "scan_expired timeNow h (Suc i) ps = (tr', ScanFound j)"
        and tr: "tr = TimerNotExpired p (mExpires t - timeNow) # tr'"
        by (auto split: prod.splits simp: Let_def)
      from Cons.IH [OF r] have ih: "Suc i \<le> j" "j - Suc i < length ps"
        "expired_at timeNow h (ps ! (j - Suc i))"
        "\<forall>k < j - Suc i. \<not> expired_at timeNow h (ps ! k) \<and> h (ps ! k) \<noteq> None"
        "tr' = map (\<lambda>p. TimerNotExpired p (mExpires (the (h p)) - timeNow)) (take (j - Suc i) ps) @ [TimerHasExpired (ps ! (j - Suc i))]"
        by auto
      from ih(1) obtain d where d: "j - i = Suc d" "j - Suc i = d"
        by (cases "j - i") auto
      have "\<forall>k < Suc d. \<not> expired_at timeNow h ((p # ps) ! k) \<and> h ((p # ps) ! k) \<noteq> None"
      proof (intro allI impI)
        fix k assume "k < Suc d"
        then show "\<not> expired_at timeNow h ((p # ps) ! k) \<and> h ((p # ps) ! k) \<noteq> None"
          using ih(4) d Some False by (cases k) (auto simp: expired_at_def)
      qed
      with ih d tr Some show ?thesis by simp
    qed
  qed
qed

lemma same_env_refl [simp]: "same_env w w"
  by (simp add: same_env_def)

lemma same_env_TRACE [simp]: "same_env w (TRACE evs w)"
  by (simp add: same_env_def)

lemma same_env_trans: "same_env w w1 \<Longrightarrow> same_env w1 w2 \<Longrightarrow> same_env w w2"
  by (simp add: same_env_def)

lemma expired_at_upd:
  "h a = Some t \<Longrightarrow> expired_at timeNow (h(a \<mapsto> t\<lparr>mExpired := True\<rparr>)) = expired_at timeNow h"
  by (rule ext) (simp add: expired_at_def)

lemma fire_all_step:
  assumes i: "i < length v" and a: "h (v ! i) = Some t" and e: "expired_at timeNow h (v ! i)"
  shows "fire_all timeNow (h(v ! i \<mapsto> t\<lparr>mExpired := True\<rparr>)) (erase_at i v) = fire_all timeNow h v"
proof (rule ext)
  fix p
  show "fire_all timeNow (h(v ! i \<mapsto> t\<lparr>mExpired := True\<rparr>)) (erase_at i v) p = fire_all timeNow h v p"
  proof (cases "p = v ! i")
    case True
    with i a e show ?thesis
      by (simp add: fire_all_def expired_at_upd)
  next
    case False
    with i a e show ?thesis
      by (simp add: fire_all_def expired_at_upd set_erase_at_other)
  qed
qed

lemma scan_Found_trace_Fired:
  "scan_expired timeNow h i v = (tr, r) \<Longrightarrow> TimerFired x \<notin> set tr"
  by (induction v arbitrary: i tr) (auto split: option.splits if_splits prod.splits simp: Let_def)

lemma scan_Found_trace_HasExpired:
  "scan_expired timeNow h i v = (tr, r) \<Longrightarrow>
     TimerHasExpired x \<in> set tr \<longleftrightarrow> (\<exists>j. r = ScanFound j \<and> x = v ! (j - i))"
proof (induction v arbitrary: i tr)
  case Nil
  then show ?case by auto
next
  case (Cons p ps)
  show ?case
  proof (cases "h p")
    case None
    with Cons.prems show ?thesis by auto
  next
    case (Some t)
    show ?thesis
    proof (cases "sint (mExpires t - timeNow) \<le> 0")
      case True
      with Some Cons.prems show ?thesis by auto
    next
      case False
      with Some Cons.prems obtain tr' where
        r: "scan_expired timeNow h (Suc i) ps = (tr', r)"
        and tr: "tr = TimerNotExpired p (mExpires t - timeNow) # tr'"
        by (auto split: prod.splits simp: Let_def)
      have "TimerHasExpired x \<in> set tr \<longleftrightarrow> TimerHasExpired x \<in> set tr'"
        using tr by simp
      also have "\<dots> \<longleftrightarrow> (\<exists>j. r = ScanFound j \<and> x = ps ! (j - Suc i))"
        using Cons.IH [OF r] .
      also have "\<dots> \<longleftrightarrow> (\<exists>j. r = ScanFound j \<and> x = (p # ps) ! (j - i))"
      proof -
        have "(p # ps) ! (j - i) = ps ! (j - Suc i)" if "r = ScanFound j" for j
        proof -
          from r that have "Suc i \<le> j"
            using scan_expired_Found [of timeNow h "Suc i" ps tr' j] by simp
          then have "j - i = Suc (j - Suc i)" by simp
          then show ?thesis by simp
        qed
        then show ?thesis by auto
      qed
      finally show ?thesis .
    qed
  qed
qed

lemma arrives_simps [simp]:
  "spTimers (arrives pt here w) = spTimers w"
  "heap (arrives pt here w) = heap w"
  "sRescheduleNeeded (arrives pt here w) = (pt = Some here \<or> sRescheduleNeeded w)"
  "it_value (arrives pt here w) = it_value w"
  "sigalrm (arrives pt here w) = sigalrm w"
  "clock (arrives pt here w) = clock w"
  "clock_reads (arrives pt here w) = clock_reads w"
  "setitimer_fails (arrives pt here w) = setitimer_fails w"
  "trace (arrives pt here w) = trace w"
  by (simp_all add: arrives_def SignalHandler_def RequestReschedule_def)

lemma arrives_None [simp]: "arrives None here w = w"
  by (simp add: arrives_def)

lemma notified_None [simp]: "notified None OnExpire = OnExpire"
  by (intro ext) (simp add: notified_def notify_result_def split: result.splits)

lemma Reschedule_notified_None: "Reschedule_notified None OnExpire w = Reschedule OnExpire w"
  by (simp add: Reschedule_notified_def Reschedule_def notify_result_def
      split: option.splits prod.splits result.splits)

lemma expiry_pass_notified:
  assumes "spTimers w = Some v" and "\<forall>p\<in>set v. heap w p \<noteq> None"
  shows "\<exists>w' tr. expiry_pass (notified pt Timer_OnExpire) timeNow w = Some (Returns w') \<and>
     spTimers w' = Some (filter (\<lambda>p. \<not> expired_at timeNow (heap w) p) v) \<and>
     heap w' = fire_all timeNow (heap w) v \<and> same_os w w' \<and>
     trace w' = trace w @ tr \<and>
     (\<forall>x. TimerFired x \<in> set tr \<longleftrightarrow> x \<in> set v \<and> expired_at timeNow (heap w) x) \<and>
     (\<forall>x. TimerHasExpired x \<in> set tr \<longleftrightarrow> x \<in> set v \<and> expired_at timeNow (heap w) x) \<and>
     (sRescheduleNeeded w' \<longleftrightarrow> sRescheduleNeeded w \<or>
        (\<exists>a. pt = Some (DuringOnExpire a) \<and> a \<in> set v \<and> expired_at timeNow (heap w) a))"
  using assms
proof (induction "length v" arbitrary: w v rule: less_induct)
  case less
  note sp = \<open>spTimers w = Some v\<close> and live = \<open>\<forall>p\<in>set v. heap w p \<noteq> None\<close>
  obtain tr r where scan: "scan_expired timeNow (heap w) 0 v = (tr, r)"
    by (cases "scan_expired timeNow (heap w) 0 v")
  show ?case
  proof (cases r)
    case ScanEnd
    from scan ScanEnd have none: "\<forall>p\<in>set v. \<exists>t. heap w p = Some t \<and> 0 < sint (mExpires t - timeNow)"
      using scan_expired_End by blast
    then have ne: "\<forall>p\<in>set v. \<not> expired_at timeNow (heap w) p"
      by (auto simp: expired_at_def)
    then have f: "filter (\<lambda>p. \<not> expired_at timeNow (heap w) p) v = v"
      by (simp add: filter_id_conv)
    have h: "fire_all timeNow (heap w) v = heap w"
      using ne by (intro ext) (auto simp add: fire_all_def)
    have ep: "expiry_pass (notified pt Timer_OnExpire) timeNow w = Some (Returns (TRACE tr w))"
      using sp scan ScanEnd by (subst expiry_pass.simps) simp
    have "TimerFired x \<notin> set tr" for x
      using scan scan_Found_trace_Fired by blast
    moreover have "TimerHasExpired x \<notin> set tr" for x
      using scan_Found_trace_HasExpired [OF scan, of x] ScanEnd by simp
    ultimately show ?thesis
      using ep f h ne sp
      by (intro exI [of _ "TRACE tr w"] exI [of _ tr]) (auto simp: same_os_def)
  next
    case ScanBadPointer
    with scan have "\<exists>p\<in>set v. heap w p = None"
      using scan_expired_Bad by blast
    with live have False by blast
    then show ?thesis ..
  next
    case (ScanFound i)
    with scan have sf: "scan_expired timeNow (heap w) 0 v = (tr, ScanFound i)" by simp
    from scan_expired_Found [OF sf] have i: "i < length v"
      and ex: "expired_at timeNow (heap w) (v ! i)" by auto
    let ?a = "v ! i"
    from ex obtain t where t: "heap w ?a = Some t"
      by (auto simp: expired_at_def split: option.splits)
    let ?h1 = "(heap w)(?a \<mapsto> t\<lparr>mExpired := True\<rparr>)"
    let ?w1 = "arrives pt (DuringOnExpire ?a)
                 ((TRACE [TimerFired ?a] (TRACE tr w))\<lparr>heap := ?h1\<rparr>)"
    let ?w2 = "?w1\<lparr>spTimers := Some (erase_at i v)\<rparr>"
    have cb: "notified pt Timer_OnExpire ?a (TRACE tr w) = Returns ?w1"
      using t by (simp add: notified_def notify_result_def Timer_OnExpire_def)
    have sp1: "spTimers ?w1 = Some v" using sp by simp
    have step: "expiry_pass (notified pt Timer_OnExpire) timeNow w =
        expiry_pass (notified pt Timer_OnExpire) timeNow ?w2"
      apply (subst expiry_pass.simps)
      apply (simp only: sp option.case sf prod.case scan.case cb result.case sp1 simp_thms if_True)
      done
    have len: "length (erase_at i v) < length v"
      using i by (rule length_erase_at)
    have sp2: "spTimers ?w2 = Some (erase_at i v)" by simp
    have h2: "heap ?w2 = ?h1" by simp
    have live2: "\<forall>p\<in>set (erase_at i v). heap ?w2 p \<noteq> None"
      unfolding h2 using live set_erase_at [of i v] by auto
    from less.hyps [OF len sp2 live2] obtain w' tr2 where
      ih: "expiry_pass (notified pt Timer_OnExpire) timeNow ?w2 = Some (Returns w')"
        "spTimers w' = Some (filter (\<lambda>p. \<not> expired_at timeNow (heap ?w2) p) (erase_at i v))"
        "heap w' = fire_all timeNow (heap ?w2) (erase_at i v)"
        "same_os ?w2 w'"
        "trace w' = trace ?w2 @ tr2"
        "\<forall>x. TimerFired x \<in> set tr2 \<longleftrightarrow> x \<in> set (erase_at i v) \<and> expired_at timeNow (heap ?w2) x"
        "\<forall>x. TimerHasExpired x \<in> set tr2 \<longleftrightarrow> x \<in> set (erase_at i v) \<and> expired_at timeNow (heap ?w2) x"
        "sRescheduleNeeded w' \<longleftrightarrow> sRescheduleNeeded ?w2 \<or>
          (\<exists>a. pt = Some (DuringOnExpire a) \<and> a \<in> set (erase_at i v) \<and> expired_at timeNow (heap ?w2) a)"
      by blast
    have e2: "expired_at timeNow (heap ?w2) = expired_at timeNow (heap w)"
      unfolding h2 using t by (simp add: expired_at_upd)
    have c1: "spTimers w' = Some (filter (\<lambda>p. \<not> expired_at timeNow (heap w) p) v)"
      using ih(2) e2 i ex by (simp add: filter_erase_at)
    have c2: "heap w' = fire_all timeNow (heap w) v"
      using ih(3) fire_all_step [OF i t ex] unfolding h2 by simp
    have c3: "same_os w w'"
      using ih(4) by (simp add: same_os_def)
    let ?tr = "tr @ [TimerFired ?a] @ tr2"
    have c4: "trace w' = trace w @ ?tr"
      using ih(5) by simp
    have mem: "x \<in> set (erase_at i v) \<and> expired_at timeNow (heap w) x \<or> x = ?a \<longleftrightarrow>
        x \<in> set v \<and> expired_at timeNow (heap w) x" for x
      using i ex set_erase_at_other [of i v x] by (cases "x = ?a") auto
    have c5: "TimerFired x \<in> set ?tr \<longleftrightarrow> x \<in> set v \<and> expired_at timeNow (heap w) x" for x
    proof -
      have "TimerFired x \<notin> set tr"
        using sf scan_Found_trace_Fired by blast
      then have "TimerFired x \<in> set ?tr \<longleftrightarrow> x = ?a \<or> TimerFired x \<in> set tr2" by auto
      also have "\<dots> \<longleftrightarrow> x \<in> set v \<and> expired_at timeNow (heap w) x"
        using ih(6) e2 mem [of x] by auto
      finally show ?thesis .
    qed
    have c6: "TimerHasExpired x \<in> set ?tr \<longleftrightarrow> x \<in> set v \<and> expired_at timeNow (heap w) x" for x
    proof -
      have "TimerHasExpired x \<in> set tr \<longleftrightarrow> x = ?a"
        using scan_Found_trace_HasExpired [OF sf, of x] by auto
      then have "TimerHasExpired x \<in> set ?tr \<longleftrightarrow> x = ?a \<or> TimerHasExpired x \<in> set tr2" by auto
      also have "\<dots> \<longleftrightarrow> x \<in> set v \<and> expired_at timeNow (heap w) x"
        using ih(7) e2 mem [of x] by auto
      finally show ?thesis .
    qed
    have c7: "sRescheduleNeeded w' \<longleftrightarrow> sRescheduleNeeded w \<or>
        (\<exists>a. pt = Some (DuringOnExpire a) \<and> a \<in> set v \<and> expired_at timeNow (heap w) a)"
    proof -
      have "sRescheduleNeeded w' \<longleftrightarrow> (pt = Some (DuringOnExpire ?a) \<or> sRescheduleNeeded w) \<or>
          (\<exists>a. pt = Some (DuringOnExpire a) \<and> a \<in> set (erase_at i v) \<and> expired_at timeNow (heap w) a)"
        using ih(8) e2 by simp
      also have "\<dots> \<longleftrightarrow> sRescheduleNeeded w \<or>
          (\<exists>a. pt = Some (DuringOnExpire a) \<and> (a \<in> set (erase_at i v) \<and> expired_at timeNow (heap w) a \<or> a = ?a))"
        by auto
      also have "\<dots> \<longleftrightarrow> sRescheduleNeeded w \<or>
          (\<exists>a. pt = Some (DuringOnExpire a) \<and> a \<in> set v \<and> expired_at timeNow (heap w) a)"
        using mem by simp
      finally show ?thesis .
    qed
    from step ih(1) c1 c2 c3 c4 c5 c6 c7 show ?thesis
      by (intro exI [of _ w'] exI [of _ ?tr]) (simp only: simp_thms)
  qed
qed

lemma expiry_pass_default:
  assumes "spTimers w = Some v" and "\<forall>p\<in>set v. heap w p \<noteq> None"
  shows "\<exists>w' tr. expiry_pass Timer_OnExpire timeNow w = Some (Returns w') \<and>
     spTimers w' = Some (filter (\<lambda>p. \<not> expired_at timeNow (heap w) p) v) \<and>
     heap w' = fire_all timeNow (heap w) v \<and> same_env w w' \<and>
     trace w' = trace w @ tr \<and>
     (\<forall>x. TimerFired x \<in> set tr \<longleftrightarrow> x \<in> set v \<and> expired_at timeNow (heap w) x) \<and>
     (\<forall>x. TimerHasExpired x \<in> set tr \<longleftrightarrow> x \<in> set v \<and> expired_at timeNow (heap w) x)"
proof -
  from expiry_pass_notified [OF assms, of None timeNow] obtain w' tr where
    "expiry_pass Timer_OnExpire timeNow w = Some (Returns w')"
    "spTimers w' = Some (filter (\<lambda>p. \<not> expired_at timeNow (heap w) p) v)"
    "heap w' = fire_all timeNow (heap w) v" "same_os w w'"
    "trace w' = trace w @ tr"
    "\<forall>x. TimerFired x \<in> set tr \<longleftrightarrow> x \<in> set v \<and> expired_at timeNow (heap w) x"
    "\<forall>x. TimerHasExpired x \<in> set tr \<longleftrightarrow> x \<in> set v \<and> expired_at timeNow (heap w) x"
    "sRescheduleNeeded w' \<longleftrightarrow> sRescheduleNeeded w"
    by (auto simp only: notified_None option.distinct simp_thms)
  moreover from this have "same_env w w'"
    by (simp add: same_env_def same_os_def)
  ultimately show ?thesis by blast
qed




lemma sint_eq_uint_small:
  fixes x :: "64 word"
  assumes "uint x < 2 ^ 63"
  shows "sint x = uint x"
proof -
  have l: "- (2 ^ 63) \<le> uint x"
    by (rule order_trans [OF _ uint_ge_0]) simp
  have "sint x = signed_take_bit 63 (uint x)"
    by (simp add: sint_uint)
  also have "\<dots> = uint x"
    using assms l by (intro signed_take_bit_int_eq_self) simp_all
  finally show ?thesis .
qed




lemma select_next_spec:
  assumes "\<forall>p\<in>set v. \<exists>t. h p = Some t \<and> 0 < sint (mExpires t - timeNow)"
    and "acc = 0 \<or> 0 < sint acc"
  shows "\<exists>r. select_next timeNow h acc v = Some r \<and>
     (r = 0 \<longleftrightarrow> acc = 0 \<and> v = []) \<and>
     (r \<noteq> 0 \<longrightarrow> 0 < sint r \<and>
        (r = acc \<or> (\<exists>p\<in>set v. r = mExpires (the (h p)) - timeNow)) \<and>
        (acc \<noteq> 0 \<longrightarrow> sint r \<le> sint acc) \<and>
        (\<forall>p\<in>set v. sint r \<le> sint (mExpires (the (h p)) - timeNow)))"
  using assms
proof (induction v arbitrary: acc)
  case Nil
  then show ?case by auto
next
  case (Cons p ps)
  from Cons.prems(1) obtain t where t: "h p = Some t" and pos: "0 < sint (mExpires t - timeNow)"
    by auto
  let ?e = "mExpires t - timeNow"
  let ?acc' = "if acc = 0 \<or> sint acc > sint ?e then ?e else acc"
  have ne: "?e \<noteq> 0" using pos by auto
  have step: "select_next timeNow h acc (p # ps) = select_next timeNow h ?acc' ps"
    using t pos by (simp add: Let_def)
  have acc': "?acc' = 0 \<or> 0 < sint ?acc'"
    using pos Cons.prems(2) by auto
  have ps: "\<forall>p\<in>set ps. \<exists>t. h p = Some t \<and> 0 < sint (mExpires t - timeNow)"
    using Cons.prems(1) by simp
  from Cons.IH [OF ps acc'] obtain r where
    r: "select_next timeNow h ?acc' ps = Some r"
    and r0: "r = 0 \<longleftrightarrow> ?acc' = 0 \<and> ps = []"
    and rn: "r \<noteq> 0 \<longrightarrow> 0 < sint r \<and>
        (r = ?acc' \<or> (\<exists>p\<in>set ps. r = mExpires (the (h p)) - timeNow)) \<and>
        (?acc' \<noteq> 0 \<longrightarrow> sint r \<le> sint ?acc') \<and>
        (\<forall>p\<in>set ps. sint r \<le> sint (mExpires (the (h p)) - timeNow))"
    by blast
  have nz: "?acc' \<noteq> 0" using ne Cons.prems(2) by auto
  with r0 have rnz: "r \<noteq> 0" by blast
  from rn rnz have f: "0 < sint r"
    "r = ?acc' \<or> (\<exists>p\<in>set ps. r = mExpires (the (h p)) - timeNow)"
    "sint r \<le> sint ?acc'"
    "\<forall>p\<in>set ps. sint r \<le> sint (mExpires (the (h p)) - timeNow)"
    using nz by blast+
  have le_e: "sint r \<le> sint ?e"
    using f(3) by (auto split: if_splits)
  have le_acc: "acc \<noteq> 0 \<longrightarrow> sint r \<le> sint acc"
    using f(3) by (auto split: if_splits)
  have mem: "r = acc \<or> (\<exists>q\<in>set (p # ps). r = mExpires (the (h q)) - timeNow)"
    using f(2) t by (auto split: if_splits)
  have all: "\<forall>q\<in>set (p # ps). sint r \<le> sint (mExpires (the (h q)) - timeNow)"
    using f(4) le_e t by simp
  show ?case
    using step r rnz f(1) mem le_acc all by (intro exI [of _ r]) simp
qed

lemma arm_next_spec:
  assumes sp: "spTimers w = Some v"
    and pos: "\<forall>p\<in>set v. \<exists>t. heap w p = Some t \<and> 0 < sint (mExpires t - timeNow)"
  shows "\<exists>r. select_next timeNow (heap w) 0 v = Some r \<and>
     arm_next timeNow w =
       (if setitimer_fails w (make_timeout r)
        then Throws CommonException_Internal (TRACE [CouldntInitialiseTimer] w)
        else Returns (w\<lparr>it_value := make_timeout r\<rparr>)) \<and>
     (v = [] \<longrightarrow> r = 0) \<and>
     (v \<noteq> [] \<longrightarrow> 0 < sint r \<and> sint r = Min (time_to_expiry timeNow w ` set v))"
proof -
  from select_next_spec [OF pos, of 0] obtain r where
    r: "select_next timeNow (heap w) 0 v = Some r"
    and r0: "r = 0 \<longleftrightarrow> v = []"
    and rn: "r \<noteq> 0 \<longrightarrow> 0 < sint r \<and>
        (r = 0 \<or> (\<exists>p\<in>set v. r = mExpires (the (heap w p)) - timeNow)) \<and>
        (\<forall>p\<in>set v. sint r \<le> sint (mExpires (the (heap w p)) - timeNow))"
    by auto
  have nonneg: "0 \<le> sint r"
    using rn by (cases "r = 0") auto
  have arm: "arm_next timeNow w =
       (if setitimer_fails w (make_timeout r)
        then Throws CommonException_Internal (TRACE [CouldntInitialiseTimer] w)
        else Returns (w\<lparr>it_value := make_timeout r\<rparr>))"
    using sp r nonneg by (simp add: arm_next_def)
  have tte: "time_to_expiry timeNow w p = sint (mExpires (the (heap w p)) - timeNow)"
    if "p \<in> set v" for p
    using pos that by (auto simp: time_to_expiry_def)
  have min: "0 < sint r \<and> sint r = Min (time_to_expiry timeNow w ` set v)" if ne: "v \<noteq> []"
  proof -
    from ne r0 have "r \<noteq> 0" by simp
    with rn have p: "0 < sint r"
      and m: "\<exists>p\<in>set v. r = mExpires (the (heap w p)) - timeNow"
      and l: "\<forall>p\<in>set v. sint r \<le> sint (mExpires (the (heap w p)) - timeNow)"
      by auto
    have "Min (time_to_expiry timeNow w ` set v) = sint r"
    proof (rule Min_eqI)
      show "finite (time_to_expiry timeNow w ` set v)" by simp
      show "sint r \<le> y" if "y \<in> time_to_expiry timeNow w ` set v" for y
        using that l tte by auto
      show "sint r \<in> time_to_expiry timeNow w ` set v"
        using m tte by (auto simp: image_iff)
    qed
    with p show ?thesis by simp
  qed
  from r arm r0 min show ?thesis by blast
qed

lemma Reschedule_Returns:
  assumes "Reschedule cb w = Some (Returns w')"
  shows "\<exists>v w2. spTimers w = Some v \<and>
     expiry_pass cb (next_reading w)
       (w\<lparr>sRescheduleNeeded := False, clock_reads := Suc (clock_reads w)\<rparr>) = Some (Returns w2) \<and>
     arm_next (next_reading w) w2 = Returns w'"
  using assms
  by (auto simp: Reschedule_def GetCurrentBoxTime_def next_reading_def
      split: option.splits result.splits)

lemma Reschedule_unfold:
  assumes "spTimers w = Some v"
  shows "Reschedule cb w =
     (case expiry_pass cb (next_reading w)
             (w\<lparr>sRescheduleNeeded := False, clock_reads := Suc (clock_reads w)\<rparr>) of
        None \<Rightarrow> None
      | Some (Throws e w2) \<Rightarrow> Some (Throws e w2)
      | Some (Returns w2) \<Rightarrow> Some (arm_next (next_reading w) w2))"
  using assms unfolding next_reading_def by (simp add: Reschedule_def GetCurrentBoxTime_def)

lemma Reschedule_notified_default:
  assumes sp: "spTimers w = Some v" and live: "\<forall>p\<in>set v. heap w p \<noteq> None"
    and os: "\<forall>tv. \<not> setitimer_fails w tv"
  shows "\<exists>w' tr. Reschedule_notified pt Timer_OnExpire w = Some (Returns w') \<and>
     spTimers w' = Some (filter (\<lambda>p. \<not> expired_at (next_reading w) (heap w) p) v) \<and>
     heap w' = fire_all (next_reading w) (heap w) v \<and>
     trace w' = trace w @ tr \<and>
     (\<forall>x. TimerFired x \<in> set tr \<longleftrightarrow> x \<in> set v \<and> expired_at (next_reading w) (heap w) x) \<and>
     (\<forall>x. TimerHasExpired x \<in> set tr \<longleftrightarrow> x \<in> set v \<and> expired_at (next_reading w) (heap w) x) \<and>
     (sRescheduleNeeded w' \<longleftrightarrow> (\<exists>p. pt = Some p \<and> reached p (next_reading w) w)) \<and>
     clock_reads w' = Suc (clock_reads w) \<and>
     clock w' = clock w \<and> sigalrm w' = sigalrm w \<and> setitimer_fails w' = setitimer_fails w"
proof -
  let ?now = "next_reading w"
  let ?w0 = "arrives pt BeforeClockRead (w\<lparr>sRescheduleNeeded := False\<rparr>)"
  let ?w1 = "arrives pt BeforeScan (?w0\<lparr>clock_reads := Suc (clock_reads w)\<rparr>)"
  have clk: "GetCurrentBoxTime ?w0 = (?now, ?w0\<lparr>clock_reads := Suc (clock_reads w)\<rparr>)"
    by (simp add: GetCurrentBoxTime_def next_reading_def)
  have sp1: "spTimers ?w1 = Some v" using sp by simp
  have live1: "\<forall>p\<in>set v. heap ?w1 p \<noteq> None" using live by simp
  have h1: "heap ?w1 = heap w" by simp
  from expiry_pass_notified [OF sp1 live1, of pt ?now] obtain w2 tr where
    ep: "expiry_pass (notified pt Timer_OnExpire) ?now ?w1 = Some (Returns w2)"
    and sp2: "spTimers w2 = Some (filter (\<lambda>p. \<not> expired_at ?now (heap w) p) v)"
    and h2: "heap w2 = fire_all ?now (heap w) v"
    and env: "same_os ?w1 w2"
    and tr0: "trace w2 = trace ?w1 @ tr"
    and fired: "\<forall>x. TimerFired x \<in> set tr \<longleftrightarrow> x \<in> set v \<and> expired_at ?now (heap w) x"
    and has: "\<forall>x. TimerHasExpired x \<in> set tr \<longleftrightarrow> x \<in> set v \<and> expired_at ?now (heap w) x"
    and fl: "sRescheduleNeeded w2 \<longleftrightarrow> sRescheduleNeeded ?w1 \<or>
        (\<exists>a. pt = Some (DuringOnExpire a) \<and> a \<in> set v \<and> expired_at ?now (heap w) a)"
    unfolding h1 by blast
  have tr: "trace w2 = trace w @ tr" using tr0 by simp
  let ?w3 = "arrives pt BeforeSelection w2"
  have sp3: "spTimers ?w3 = Some (filter (\<lambda>p. \<not> expired_at ?now (heap w) p) v)"
    using sp2 by simp
  from expiry_pass_post [OF ep] sp2 have
    pos: "\<forall>p\<in>set (filter (\<lambda>p. \<not> expired_at ?now (heap w) p) v).
            \<exists>t. heap ?w3 p = Some t \<and> 0 < sint (mExpires t - ?now)"
    by auto
  from arm_next_spec [OF sp3 pos] obtain r where
    a: "arm_next ?now ?w3 =
       (if setitimer_fails ?w3 (make_timeout r)
        then Throws CommonException_Internal (TRACE [CouldntInitialiseTimer] ?w3)
        else Returns (?w3\<lparr>it_value := make_timeout r\<rparr>))"
    by blast
  have "setitimer_fails ?w3 = setitimer_fails w"
    using env by (simp add: same_os_def)
  with a os have arm: "arm_next ?now ?w3 = Returns (?w3\<lparr>it_value := make_timeout r\<rparr>)"
    by simp
  let ?w4 = "arrives pt BeforeReturn (?w3\<lparr>it_value := make_timeout r\<rparr>)"
  have res: "Reschedule_notified pt Timer_OnExpire w = Some (Returns ?w4)"
    unfolding Reschedule_notified_def
    by (simp only: sp option.case clk prod.case ep result.case arm notify_result_def)
  have flag: "sRescheduleNeeded ?w4 \<longleftrightarrow> (\<exists>p. pt = Some p \<and> reached p ?now w)"
  proof (cases pt)
    case None
    then show ?thesis using fl by simp
  next
    case (Some p)
    then show ?thesis using fl sp by (cases p) (auto simp: reached_def members_def)
  qed
  have "spTimers ?w4 = Some (filter (\<lambda>p. \<not> expired_at ?now (heap w) p) v)"
    using sp2 by simp
  moreover have "heap ?w4 = fire_all ?now (heap w) v" using h2 by simp
  moreover have "trace ?w4 = trace w @ tr" using tr by simp
  moreover have "clock_reads ?w4 = Suc (clock_reads w) \<and> clock ?w4 = clock w \<and>
      sigalrm ?w4 = sigalrm w \<and> setitimer_fails ?w4 = setitimer_fails w"
    using env by (simp add: same_os_def)
  ultimately show ?thesis
    using res fired has flag
    by (intro exI [of _ ?w4] exI [of _ tr]) (simp only: simp_thms)
qed

lemma Reschedule_default:
  assumes sp: "spTimers w = Some v" and live: "\<forall>p\<in>set v. heap w p \<noteq> None"
    and os: "\<forall>tv. \<not> setitimer_fails w tv"
  shows "\<exists>w' tr. Reschedule Timer_OnExpire w = Some (Returns w') \<and>
     spTimers w' = Some (filter (\<lambda>p. \<not> expired_at (next_reading w) (heap w) p) v) \<and>
     heap w' = fire_all (next_reading w) (heap w) v \<and>
     trace w' = trace w @ tr \<and>
     (\<forall>x. TimerFired x \<in> set tr \<longleftrightarrow> x \<in> set v \<and> expired_at (next_reading w) (heap w) x) \<and>
     (\<forall>x. TimerHasExpired x \<in> set tr \<longleftrightarrow> x \<in> set v \<and> expired_at (next_reading w) (heap w) x) \<and>
     sRescheduleNeeded w' = False \<and> clock_reads w' = Suc (clock_reads w) \<and>
     clock w' = clock w \<and> sigalrm w' = sigalrm w \<and> setitimer_fails w' = setitimer_fails w"
proof -
  from Reschedule_notified_default [OF sp live os, of None] show ?thesis
    by (simp only: Reschedule_notified_None option.distinct simp_thms)
qed

lemma le_imp_expired:
  fixes e timeNow :: "64 word"
  assumes n: "uint timeNow < 2 ^ 63" and le: "e \<le> timeNow"
  shows "sint (e - timeNow) \<le> 0"
proof -
  have ule: "uint e \<le> uint timeNow" using le by (simp add: word_le_def)
  then have e: "uint e < 2 ^ 63" using n by simp
  have se: "sint e = uint e" using e by (rule sint_eq_uint_small)
  have sn: "sint timeNow = uint timeNow" using n by (rule sint_eq_uint_small)
  have lo: "- (2 ^ 63) \<le> uint e - uint timeNow"
    using n uint_ge_0 [of e] by linarith
  have hi: "uint e - uint timeNow < 2 ^ 63"
    using ule by (simp add: order_le_less_trans [of _ 0])
  have "sint (e - timeNow) = signed_take_bit 63 (sint e - sint timeNow)"
    by (simp add: sint_word_diff)
  also have "\<dots> = uint e - uint timeNow"
    unfolding se sn using lo hi by (rule signed_take_bit_int_eq_self)
  finally show ?thesis using ule by simp
qed




lemma scan_Found_member:
  assumes "scan_expired timeNow h 0 v = (tr, ScanFound i)"
  shows "i < length v" and "v ! i \<in> set v"
  using scan_expired_Found [OF assms] by auto

lemma expiry_pass_agree_Some:
  assumes agree: "\<And>a w. a \<in> set (members w) \<Longrightarrow> cb1 a w = cb2 a w"
  shows "expiry_pass cb' timeNow w = Some r \<Longrightarrow>
     cb' = cb1 \<longrightarrow> expiry_pass cb2 timeNow w = Some r"
proof (erule expiry_pass.raw_induct [rotated], intro impI)
  fix ep cb' timeNow w r
  let ?cb = cb2
  assume IH: "\<And>cb' timeNow w r. ep cb' timeNow w = Some r \<Longrightarrow>
      cb' = cb1 \<longrightarrow> expiry_pass cb2 timeNow w = Some r"
    and body: "(case spTimers w of None \<Rightarrow> Some (Throws UndefinedBehaviour w)
      | Some v \<Rightarrow>
          (case scan_expired timeNow (heap w) 0 v of
             (tr, ScanEnd) \<Rightarrow> Some (Returns (TRACE tr w))
           | (tr, ScanFound i) \<Rightarrow>
               (case cb' (v ! i) (TRACE tr w) of
                  Returns w' \<Rightarrow>
                    if spTimers w' = Some v
                    then ep cb' timeNow (w'\<lparr>spTimers := Some (erase_at i v)\<rparr>)
                    else Some (Throws UndefinedBehaviour w')
                | Throws e w' \<Rightarrow> Some (Throws e w'))
           | (tr, ScanBadPointer) \<Rightarrow> Some (Throws UndefinedBehaviour (TRACE tr w)))) = Some r"
    and cb': "cb' = cb1"
  show "expiry_pass cb2 timeNow w = Some r"
  proof (cases "spTimers w")
    case None
    with body show ?thesis by (subst expiry_pass.simps) auto
  next
    case (Some v)
    obtain tr s where scan: "scan_expired timeNow (heap w) 0 v = (tr, s)"
      by (cases "scan_expired timeNow (heap w) 0 v")
    show ?thesis
    proof (cases s)
      case ScanEnd
      with body Some scan show ?thesis by (subst expiry_pass.simps) auto
    next
      case ScanBadPointer
      with body Some scan show ?thesis by (subst expiry_pass.simps) auto
    next
      case (ScanFound i)
      with scan have sf: "scan_expired timeNow (heap w) 0 v = (tr, ScanFound i)" by simp
      have "v ! i \<in> set (members (TRACE tr w))"
        using scan_Found_member(2) [OF sf] Some by (simp add: members_def)
      then have same: "cb' (v ! i) (TRACE tr w) = cb2 (v ! i) (TRACE tr w)"
        by (simp add: cb' agree)
      show ?thesis
      proof (cases "cb2 (v ! i) (TRACE tr w)")
        case (Throws e w')
        with body Some sf same show ?thesis by (subst expiry_pass.simps) auto
      next
        case (Returns w')
        show ?thesis
        proof (cases "spTimers w' = Some v")
          case False
          with body Some sf same Returns show ?thesis by (subst expiry_pass.simps) auto
        next
          case True
          with body Some sf same Returns
          have "ep cb' timeNow (w'\<lparr>spTimers := Some (erase_at i v)\<rparr>) = Some r" by simp
          from IH [OF this] cb'
          have "expiry_pass cb2 timeNow (w'\<lparr>spTimers := Some (erase_at i v)\<rparr>) = Some r"
            by blast
          with True Some sf Returns show ?thesis
            by (subst expiry_pass.simps) auto
        qed
      qed
    qed
  qed
qed

lemma expiry_pass_agree:
  assumes agree: "\<And>a w. a \<in> set (members w) \<Longrightarrow> cb1 a w = cb2 a w"
  shows "expiry_pass cb1 timeNow w = expiry_pass cb2 timeNow w"
proof (cases "expiry_pass cb1 timeNow w")
  case (Some r)
  with expiry_pass_agree_Some [of cb1 cb2 cb1 timeNow w r] agree show ?thesis by simp
next
  case None
  show ?thesis
  proof (cases "expiry_pass cb2 timeNow w")
    case (Some r)
    have "\<And>a w. a \<in> set (members w) \<Longrightarrow> cb2 a w = cb1 a w"
      using agree by simp
    from expiry_pass_agree_Some [of cb2 cb1 cb2 timeNow w r, OF this Some]
    show ?thesis using Some by simp
  next
    case None
    with \<open>expiry_pass cb1 timeNow w = None\<close> show ?thesis by simp
  qed
qed

lemma expiry_pass_while_member:
  "expiry_pass (while_member cb) timeNow w = expiry_pass cb timeNow w"
  by (rule expiry_pass_agree) (simp add: while_member_def)

lemma throw_originI:
  assumes "spTimers w = Some v" and "scan_expired timeNow (heap w) 0 v = (tr, ScanFound i)"
    and "cb (v ! i) (TRACE tr w) = Throws e w'"
  shows "\<exists>a w0. a \<in> set (members w0) \<and> cb a w0 = Throws e w'"
  using assms scan_Found_member(2) [OF assms(2)]
  by (intro exI [of _ "v ! i"] exI [of _ "TRACE tr w"]) (simp add: members_def)

lemma expiry_pass_throw_origin:
  "expiry_pass cb timeNow w = Some r \<Longrightarrow>
     (\<forall>n w'. r = Throws (CallbackException n) w' \<longrightarrow>
        (\<exists>a w0. a \<in> set (members w0) \<and> cb a w0 = Throws (CallbackException n) w'))"
  apply (erule expiry_pass.raw_induct [rotated])
  apply (auto split: option.splits prod.splits scan.splits result.splits if_splits)
  apply (erule (2) throw_originI)
  done

lemma Reschedule_throw_origin:
  assumes "Reschedule cb w = Some (Throws (CallbackException n) w')"
  shows "\<exists>a w0. a \<in> set (members w0) \<and> cb a w0 = Throws (CallbackException n) w'"
proof -
  from assms obtain v where sp: "spTimers w = Some v"
    by (auto simp: Reschedule_def split: option.splits)
  let ?ep = "expiry_pass cb (next_reading w)
       (w\<lparr>sRescheduleNeeded := False, clock_reads := Suc (clock_reads w)\<rparr>)"
  from assms have "?ep = Some (Throws (CallbackException n) w') \<or>
      (\<exists>w2. ?ep = Some (Returns w2) \<and> arm_next (next_reading w) w2 = Throws (CallbackException n) w')"
    by (auto simp: Reschedule_unfold [OF sp] split: option.splits result.splits)
  then show ?thesis
  proof
    assume "?ep = Some (Throws (CallbackException n) w')"
    from expiry_pass_throw_origin [OF this] show ?thesis by blast
  next
    assume "\<exists>w2. ?ep = Some (Returns w2) \<and> arm_next (next_reading w) w2 = Throws (CallbackException n) w'"
    then show ?thesis
      by (auto simp: arm_next_def split: option.splits if_splits)
  qed
qed

lemma expiry_pass_cases_induct [consumes 1, case_names NoSet End BadPointer Throw Invalidated Step]:
  assumes run: "expiry_pass cb timeNow w = Some r"
    and NoSet: "\<And>w. spTimers w = None \<Longrightarrow> P w (Throws UndefinedBehaviour w)"
    and End: "\<And>w v tr. spTimers w = Some v \<Longrightarrow>
        scan_expired timeNow (heap w) 0 v = (tr, ScanEnd) \<Longrightarrow> P w (Returns (TRACE tr w))"
    and BadPointer: "\<And>w v tr. spTimers w = Some v \<Longrightarrow>
        scan_expired timeNow (heap w) 0 v = (tr, ScanBadPointer) \<Longrightarrow>
        P w (Throws UndefinedBehaviour (TRACE tr w))"
    and Throw: "\<And>w v tr i e w1. spTimers w = Some v \<Longrightarrow>
        scan_expired timeNow (heap w) 0 v = (tr, ScanFound i) \<Longrightarrow>
        cb (v ! i) (TRACE tr w) = Throws e w1 \<Longrightarrow> P w (Throws e w1)"
    and Invalidated: "\<And>w v tr i w1. spTimers w = Some v \<Longrightarrow>
        scan_expired timeNow (heap w) 0 v = (tr, ScanFound i) \<Longrightarrow>
        cb (v ! i) (TRACE tr w) = Returns w1 \<Longrightarrow> spTimers w1 \<noteq> Some v \<Longrightarrow>
        P w (Throws UndefinedBehaviour w1)"
    and Step: "\<And>w v tr i w1 r. spTimers w = Some v \<Longrightarrow>
        scan_expired timeNow (heap w) 0 v = (tr, ScanFound i) \<Longrightarrow>
        cb (v ! i) (TRACE tr w) = Returns w1 \<Longrightarrow> spTimers w1 = Some v \<Longrightarrow>
        P (w1\<lparr>spTimers := Some (erase_at i v)\<rparr>) r \<Longrightarrow> P w r"
  shows "P w r"
proof -
  have "cb' = cb \<and> now' = timeNow \<longrightarrow> P w r"
    if "expiry_pass cb' now' w = Some r" for cb' now'
    using that
    apply (erule_tac expiry_pass.raw_induct [rotated])
    subgoal premises prems for ep cb' now' w r
    proof (intro impI)
      assume eq: "cb' = cb \<and> now' = timeNow"
      note IH = prems(1)
      note body = prems(2) [unfolded conjunct1 [OF eq] conjunct2 [OF eq]]
      show "P w r"
      proof (cases "spTimers w")
        case None
        with body have "r = Throws UndefinedBehaviour w" by simp
        with None show ?thesis by (simp add: NoSet)
      next
        case (Some v)
        note sp = this
        obtain tr s where scan: "scan_expired timeNow (heap w) 0 v = (tr, s)"
          by (cases "scan_expired timeNow (heap w) 0 v")
        show ?thesis
        proof (cases s)
          case ScanEnd
          with body sp scan have "r = Returns (TRACE tr w)" by simp
          with sp scan ScanEnd show ?thesis by (simp add: End)
        next
          case ScanBadPointer
          with body sp scan have "r = Throws UndefinedBehaviour (TRACE tr w)" by simp
          with sp scan ScanBadPointer show ?thesis by (simp add: BadPointer)
        next
          case (ScanFound i)
          with scan have sf: "scan_expired timeNow (heap w) 0 v = (tr, ScanFound i)" by simp
          show ?thesis
          proof (cases "cb (v ! i) (TRACE tr w)")
            case (Throws e w1)
            with body sp sf have "r = Throws e w1" by simp
            with Throw [OF sp sf Throws] show ?thesis by simp
          next
            case (Returns w1)
            note ret = this
            show ?thesis
            proof (cases "spTimers w1 = Some v")
              case False
              with body sp sf ret have "r = Throws UndefinedBehaviour w1" by simp
              with Invalidated [OF sp sf ret False] show ?thesis by simp
            next
              case True
              with body sp sf ret
              have "ep cb timeNow (w1\<lparr>spTimers := Some (erase_at i v)\<rparr>) = Some r" by simp
              from IH [OF this] have "P (w1\<lparr>spTimers := Some (erase_at i v)\<rparr>) r" by simp
              from Step [OF sp sf ret True this] show ?thesis .
            qed
          qed
        qed
      qed
    qed
    done
  with run show ?thesis by blast
qed

lemma expiry_pass_subset:
  assumes run: "expiry_pass cb timeNow w = Some r"
  shows "\<forall>w'. r = Returns w' \<longrightarrow> set (members w') \<subseteq> set (members w)"
  using run
proof (induction rule: expiry_pass_cases_induct)
  case (End w v tr)
  then show ?case by (auto simp: members_def)
next
  case (Step w v tr i w1 r)
  from Step(5) show ?case
    using set_erase_at [of i v] Step(1) by (auto simp: members_def)
qed simp_all

lemma arm_next_Returns_iff:
  "arm_next timeNow w = Returns w' \<longleftrightarrow>
     (\<exists>v r. spTimers w = Some v \<and> select_next timeNow (heap w) 0 v = Some r \<and> 0 \<le> sint r \<and>
        \<not> setitimer_fails w (make_timeout r) \<and> w' = w\<lparr>it_value := make_timeout r\<rparr>)"
  by (auto simp: arm_next_def split: option.splits if_splits)

lemma remove_loop_absent: "t \<notin> set v \<Longrightarrow> remove_loop t v = v"
  by (auto simp add: remove_loop_filter filter_id_conv)

lemma Timers_Remove_unfold:
  "spTimers w = Some v \<Longrightarrow>
     Timers_Remove cb t w = Reschedule cb (w\<lparr>spTimers := Some (filter (\<lambda>p. p \<noteq> t) v)\<rparr>)"
  by (simp add: Timers_Remove_def remove_loop_filter)

lemma Timers_Remove_absent:
  assumes "spTimers w = Some v" and "t \<notin> set v"
  shows "Timers_Remove cb t w = Reschedule cb w"
proof -
  from assms have eq: "w\<lparr>spTimers := Some v\<rparr> = w" by simp
  from assms have "Timers_Remove cb t w = Reschedule cb (w\<lparr>spTimers := Some v\<rparr>)"
    by (simp add: Timers_Remove_def remove_loop_absent)
  then show ?thesis by (simp only: eq)
qed

lemma Reschedule_Returns_subset:
  assumes "Reschedule cb w = Some (Returns w')"
  shows "set (members w') \<subseteq> set (members w)"
proof -
  from Reschedule_Returns [OF assms] obtain v w2 where
    sp: "spTimers w = Some v"
    and ep: "expiry_pass cb (next_reading w)
       (w\<lparr>sRescheduleNeeded := False, clock_reads := Suc (clock_reads w)\<rparr>) = Some (Returns w2)"
    and arm: "arm_next (next_reading w) w2 = Returns w'"
    by blast
  from expiry_pass_subset [OF ep] have "set (members w2) \<subseteq> set (members w)"
    by (simp add: members_def)
  moreover from arm have "members w' = members w2"
    by (auto simp: arm_next_def members_def split: option.splits if_splits)
  ultimately show ?thesis by simp
qed

lemma Reschedule_subset:
  assumes "Reschedule cb w = Some (Returns w')" and "keeps_set cb"
  shows "set (members w') \<subseteq> set (members w)"
  using assms(1) by (rule Reschedule_Returns_subset)

lemma Reschedule_Returns_spTimers:
  assumes "Reschedule cb w = Some (Returns w')"
  shows "\<exists>v'. spTimers w' = Some v'"
proof -
  from Reschedule_Returns [OF assms] obtain w2 where "arm_next (next_reading w) w2 = Returns w'"
    by blast
  then show ?thesis
    unfolding arm_next_Returns_iff by auto
qed

lemma Reschedule_again:
  assumes r: "Reschedule cb w = Some (Returns w1)"
    and same: "next_reading w1 = next_reading w"
  shows "\<exists>tr. Reschedule cb w1 = Some (Returns (TRACE tr
       (w1\<lparr>sRescheduleNeeded := False, clock_reads := Suc (clock_reads w1)\<rparr>))) \<and>
     (\<forall>x. TimerFired x \<notin> set tr \<and> TimerHasExpired x \<notin> set tr)"
proof -
  let ?now = "next_reading w"
  from Reschedule_Returns [OF r] obtain v w2 where
    ep: "expiry_pass cb ?now
       (w\<lparr>sRescheduleNeeded := False, clock_reads := Suc (clock_reads w)\<rparr>) = Some (Returns w2)"
    and arm: "arm_next ?now w2 = Returns w1"
    by blast
  from expiry_pass_post [OF ep] obtain v' where
    sp2: "spTimers w2 = Some v'"
    and pos: "\<forall>p\<in>set v'. \<exists>t. heap w2 p = Some t \<and> 0 < sint (mExpires t - ?now)"
    by blast
  from arm obtain r0 where
    sel: "select_next ?now (heap w2) 0 v' = Some r0" and nn: "0 \<le> sint r0"
    and ok: "\<not> setitimer_fails w2 (make_timeout r0)"
    and w1: "w1 = w2\<lparr>it_value := make_timeout r0\<rparr>"
    using sp2 by (auto simp: arm_next_Returns_iff)
  let ?w1' = "w1\<lparr>sRescheduleNeeded := False, clock_reads := Suc (clock_reads w1)\<rparr>"
  let ?tr = "map (\<lambda>p. TimerNotExpired p (mExpires (the (heap ?w1' p)) - ?now)) v'"
  have sp1: "spTimers w1 = Some v'" using sp2 w1 by simp
  have sp1': "spTimers ?w1' = Some v'" using sp1 by simp
  have q: "\<forall>p\<in>set v'. \<exists>t. heap ?w1' p = Some t \<and> 0 < sint (mExpires t - ?now)"
    using pos w1 by simp
  have ep1: "expiry_pass cb ?now ?w1' = Some (Returns (TRACE ?tr ?w1'))"
    by (rule expiry_pass_none_due [OF sp1' q])
  have "arm_next ?now (TRACE ?tr ?w1') = Returns ((TRACE ?tr ?w1')\<lparr>it_value := make_timeout r0\<rparr>)"
    using sp1 sel ok nn w1 by (simp add: arm_next_Returns_iff)
  moreover have "(TRACE ?tr ?w1')\<lparr>it_value := make_timeout r0\<rparr> = TRACE ?tr ?w1'"
    by (simp add: w1 TRACE_def)
  ultimately have "Reschedule cb w1 = Some (Returns (TRACE ?tr ?w1'))"
    using ep1 same by (simp add: Reschedule_unfold [OF sp1])
  moreover have "\<forall>x. TimerFired x \<notin> set ?tr \<and> TimerHasExpired x \<notin> set ?tr"
    by auto
  ultimately show ?thesis by blast
qed

lemma not_member_never_fires:
  assumes sp: "spTimers u = Some v" and live: "\<forall>p\<in>set v. heap u p \<noteq> None"
    and os: "\<forall>tv. \<not> setitimer_fails u tv" and t: "t \<notin> set v"
  shows "\<exists>u' tr. Reschedule Timer_OnExpire u = Some (Returns u') \<and> trace u' = trace u @ tr \<and>
     TimerFired t \<notin> set tr \<and> TimerHasExpired t \<notin> set tr \<and> t \<notin> set (members u') \<and>
     heap u' t = heap u t"
proof -
  from Reschedule_default [OF sp live os] obtain u' tr where
    "Reschedule Timer_OnExpire u = Some (Returns u')"
    "spTimers u' = Some (filter (\<lambda>p. \<not> expired_at (next_reading u) (heap u) p) v)"
    "heap u' = fire_all (next_reading u) (heap u) v"
    "trace u' = trace u @ tr"
    "\<forall>x. TimerFired x \<in> set tr \<longleftrightarrow> x \<in> set v \<and> expired_at (next_reading u) (heap u) x"
    "\<forall>x. TimerHasExpired x \<in> set tr \<longleftrightarrow> x \<in> set v \<and> expired_at (next_reading u) (heap u) x"
    by blast
  with t show ?thesis
    by (intro exI [of _ u'] exI [of _ tr]) (simp add: members_def fire_all_def)
qed

lemma due_member_fires:
  assumes sp: "spTimers u = Some v" and live: "\<forall>p\<in>set v. heap u p \<noteq> None"
    and os: "\<forall>tv. \<not> setitimer_fails u tv" and t: "t \<in> set v"
    and obj: "heap u t = Some x" and due: "sint (mExpires x - next_reading u) \<le> 0"
  shows "\<exists>u' tr. Reschedule Timer_OnExpire u = Some (Returns u') \<and> trace u' = trace u @ tr \<and>
     TimerFired t \<in> set tr \<and> t \<notin> set (members u') \<and> heap u' t = Some (x\<lparr>mExpired := True\<rparr>)"
proof -
  have ex: "expired_at (next_reading u) (heap u) t"
    using obj due by (simp add: expired_at_def)
  from Reschedule_default [OF sp live os] obtain u' tr where
    "Reschedule Timer_OnExpire u = Some (Returns u')"
    "spTimers u' = Some (filter (\<lambda>p. \<not> expired_at (next_reading u) (heap u) p) v)"
    "heap u' = fire_all (next_reading u) (heap u) v"
    "trace u' = trace u @ tr"
    "\<forall>x. TimerFired x \<in> set tr \<longleftrightarrow> x \<in> set v \<and> expired_at (next_reading u) (heap u) x"
    by blast
  with t ex obj show ?thesis
    by (intro exI [of _ u'] exI [of _ tr]) (simp add: members_def fire_all_def)
qed

lemma Timer_ctor_zero:
  "Timer_ctor cb this 0 w =
     Some (Returns (TRACE [TimerInitialisedWillNotFire this 0]
       (w\<lparr>clock_reads := Suc (clock_reads w),
           heap := (heap w)(this \<mapsto> \<lparr>mExpires = 0, mExpired = False\<rparr>)\<rparr>)))"
  by (simp add: Timer_ctor_def GetCurrentBoxTime_def Let_def TRACE_def)

lemma Timer_ctor_nonzero:
  "T \<noteq> 0 \<Longrightarrow> Timer_ctor cb this T w =
     Timers_Add cb this (TRACE [TimerInitialised this T (next_reading w + T * 1000000)]
       (w\<lparr>clock_reads := Suc (clock_reads w),
           heap := (heap w)(this \<mapsto> \<lparr>mExpires = next_reading w + T * 1000000, mExpired = False\<rparr>)\<rparr>))"
  by (simp add: Timer_ctor_def GetCurrentBoxTime_def Let_def TRACE_def next_reading_def
      SecondsToBoxTime_def)

lemma Timer_eta: "\<lparr>mExpires = mExpires (x::Timer), mExpired = mExpired x\<rparr> = x"
  by simp

lemma Timers_Remove_default:
  assumes sp: "spTimers w = Some v" and live: "\<forall>p\<in>set v. heap w p \<noteq> None"
    and os: "\<forall>tv. \<not> setitimer_fails w tv"
  shows "\<exists>w' tr. Timers_Remove Timer_OnExpire t w = Some (Returns w') \<and>
     spTimers w' = Some (filter (\<lambda>p. \<not> expired_at (next_reading w) (heap w) p)
                           (filter (\<lambda>p. p \<noteq> t) v)) \<and>
     heap w' = fire_all (next_reading w) (heap w) (filter (\<lambda>p. p \<noteq> t) v) \<and>
     trace w' = trace w @ tr \<and>
     (\<forall>x. TimerFired x \<in> set tr \<longleftrightarrow>
        x \<in> set v \<and> x \<noteq> t \<and> expired_at (next_reading w) (heap w) x) \<and>
     clock_reads w' = Suc (clock_reads w) \<and> clock w' = clock w \<and>
     setitimer_fails w' = setitimer_fails w"
proof -
  let ?w = "w\<lparr>spTimers := Some (filter (\<lambda>p. p \<noteq> t) v)\<rparr>"
  have 1: "spTimers ?w = Some (filter (\<lambda>p. p \<noteq> t) v)" by simp
  have 2: "\<forall>p\<in>set (filter (\<lambda>p. p \<noteq> t) v). heap ?w p \<noteq> None" using live by simp
  have 3: "\<forall>tv. \<not> setitimer_fails ?w tv" using os by simp
  have n: "next_reading ?w = next_reading w" by (simp add: next_reading_def)
  from Reschedule_default [OF 1 2 3] show ?thesis
    unfolding Timers_Remove_unfold [OF sp] n by auto
qed

lemma Timers_Add_default:
  assumes sp: "spTimers w = Some v" and live: "\<forall>p\<in>set (v @ [t]). heap w p \<noteq> None"
    and os: "\<forall>tv. \<not> setitimer_fails w tv"
  shows "\<exists>w' tr. Timers_Add Timer_OnExpire t w = Some (Returns w') \<and>
     spTimers w' = Some (filter (\<lambda>p. \<not> expired_at (next_reading w) (heap w) p) (v @ [t])) \<and>
     heap w' = fire_all (next_reading w) (heap w) (v @ [t]) \<and>
     trace w' = trace w @ tr \<and>
     (\<forall>x. TimerFired x \<in> set tr \<longleftrightarrow>
        x \<in> set (v @ [t]) \<and> expired_at (next_reading w) (heap w) x) \<and>
     clock_reads w' = Suc (clock_reads w) \<and> clock w' = clock w \<and>
     setitimer_fails w' = setitimer_fails w"
proof -
  let ?w = "w\<lparr>spTimers := Some (v @ [t])\<rparr>"
  have 1: "spTimers ?w = Some (v @ [t])" by simp
  have 2: "\<forall>p\<in>set (v @ [t]). heap ?w p \<noteq> None" using live by simp
  have 3: "\<forall>tv. \<not> setitimer_fails ?w tv" using os by simp
  have n: "next_reading ?w = next_reading w" by (simp add: next_reading_def)
  from Reschedule_default [OF 1 2 3] sp show ?thesis
    unfolding Timers_Add_def n by auto
qed

lemma fire_all_live: "h p \<noteq> None \<Longrightarrow> fire_all timeNow h v p \<noteq> None"
  by (auto simp: fire_all_def)

lemma fire_all_not_expired: "\<not> expired_at timeNow h p \<Longrightarrow> fire_all timeNow h v p = h p"
  by (simp add: fire_all_def)

lemma fire_all_not_member: "p \<notin> set v \<Longrightarrow> fire_all timeNow h v p = h p"
  by (simp add: fire_all_def)

lemma expired_at_Some: "h p = Some x \<Longrightarrow> expired_at timeNow h p \<longleftrightarrow> sint (mExpires x - timeNow) \<le> 0"
  by (simp add: expired_at_def)

lemma Timer_dtor_default:
  assumes sp: "spTimers w = Some v" and live: "\<forall>p\<in>set v. heap w p \<noteq> None"
    and os: "\<forall>tv. \<not> setitimer_fails w tv"
  shows "\<exists>w'. Timer_dtor Timer_OnExpire t w = Some (Returns w') \<and>
     spTimers w' = Some (filter (\<lambda>p. \<not> expired_at (next_reading w) (heap w) p)
                           (filter (\<lambda>p. p \<noteq> t) v)) \<and>
     heap w' = (fire_all (next_reading w) (heap w) (filter (\<lambda>p. p \<noteq> t) v))(t := None)"
proof -
  let ?wt = "TRACE [TimerDestroyed t] w"
  have 1: "spTimers ?wt = Some v" using sp by simp
  have 2: "\<forall>p\<in>set v. heap ?wt p \<noteq> None" using live by simp
  have 3: "\<forall>tv. \<not> setitimer_fails ?wt tv" using os by simp
  have n: "next_reading ?wt = next_reading w" by (simp add: next_reading_def)
  from Timers_Remove_default [OF 1 2 3, of t] show ?thesis
    unfolding n by (auto simp: Timer_dtor_def)
qed

lemma keeps_set_Timer_OnExpire: "keeps_set Timer_OnExpire"
  by (auto simp: keeps_set_def Timer_OnExpire_def split: option.splits)

lemma deadline_ahead:
  fixes now now2 T :: "64 word"
  assumes small: "uint T * 1000000 < 2 ^ 63"
    and lag: "uint (now2 - now) < uint T * 1000000"
  shows "0 < sint (now + T * 1000000 - now2)"
proof -
  let ?d = "T * 1000000 :: 64 word"
  let ?e = "now2 - now"
  have eq: "now + ?d - now2 = ?d - ?e" by simp
  have "uint ?d = uint T * uint (1000000 :: 64 word) mod 2 ^ 64"
    by (simp add: uint_word_ariths)
  also have "\<dots> = uint T * 1000000 mod 2 ^ 64" by simp
  also have "\<dots> = uint T * 1000000"
    using small uint_ge_0 [of T] by (intro mod_pos_pos_trivial) simp_all
  finally have ud: "uint ?d = uint T * 1000000" .
  have le: "?e \<le> ?d"
    using lag ud by (simp add: word_le_def)
  then have us: "uint (?d - ?e) = uint ?d - uint ?e"
    by (simp add: uint_sub_lem word_le_def)
  have pos: "0 < uint (?d - ?e)" using us ud lag by simp
  have "uint (?d - ?e) \<le> uint ?d" using us uint_ge_0 [of ?e] by simp
  then have "uint (?d - ?e) < 2 ^ 63" using ud small by simp
  then have "sint (?d - ?e) = uint (?d - ?e)" by (rule sint_eq_uint_small)
  with pos show ?thesis unfolding eq by simp
qed

lemma expired_at_due: "h p = Some t \<Longrightarrow> expired_at timeNow h p \<longleftrightarrow> due_at timeNow t"
  by (simp add: expired_at_def due_at_def)

lemma fire_all_Some:
  "h p = Some t \<Longrightarrow>
     fire_all timeNow h v p = Some (if p \<in> set v \<and> due_at timeNow t then fired t else t)"
  by (simp add: fire_all_def expired_at_def due_at_def fired_def)

lemma fired_simps [simp]:
  "mExpires (fired t) = mExpires t" "mExpired (fired t)" "\<not> eligible (fired t)"
  "due_at timeNow (fired t) = due_at timeNow t"
  by (simp_all add: fired_def eligible_def due_at_def)

lemma TimerFired_copy_trace [simp]: "TimerFired x \<noteq> copy_trace a b s"
  by (simp add: copy_trace_def)

lemma Timer_assign_default:
  assumes sp: "spTimers w = Some v" and live: "\<forall>p\<in>set v. heap w p \<noteq> None"
    and dst: "heap w this = Some dst" and src: "heap w other = Some src"
    and os: "\<forall>tv. \<not> setitimer_fails w tv"
  shows "\<exists>w1 src1 w' tr.
     Timers_Remove Timer_OnExpire this (TRACE [copy_trace this other src] w) = Some (Returns w1) \<and>
     this \<notin> set (members w1) \<and>
     (\<forall>p. p \<noteq> this \<longrightarrow>
        (p \<in> set (members w1) \<longleftrightarrow> p \<in> set v \<and> \<not> expired_at (next_reading w) (heap w) p)) \<and>
     heap w1 this = Some dst \<and> heap w1 other = Some src1 \<and>
     src1 = (if other \<in> set v \<and> other \<noteq> this \<and> due_at (next_reading w) src
             then fired src else src) \<and>
     Timer_assign Timer_OnExpire this other w =
       (if eligible src1
        then Timers_Add Timer_OnExpire this (w1\<lparr>heap := (heap w1)(this \<mapsto> src1)\<rparr>)
        else Some (Returns (w1\<lparr>heap := (heap w1)(this \<mapsto> src1)\<rparr>))) \<and>
     Timer_assign Timer_OnExpire this other w = Some (Returns w') \<and>
     trace w' = trace w @ tr \<and>
     (\<forall>p. p \<noteq> this \<and> p \<in> set v \<and> expired_at (next_reading w) (heap w) p \<longrightarrow>
        TimerFired p \<in> set tr) \<and>
     heap w' this =
       Some (if eligible src1 \<and> due_at (clock w (Suc (clock_reads w))) src1
             then fired src1 else src1) \<and>
     (this \<in> set (members w') \<longleftrightarrow>
        eligible src1 \<and> \<not> due_at (clock w (Suc (clock_reads w))) src1) \<and>
     count_list (members w') this \<le> 1 \<and>
     (TimerFired this \<in> set tr \<longleftrightarrow>
        eligible src1 \<and> due_at (clock w (Suc (clock_reads w))) src1) \<and>
     (other \<noteq> this \<longrightarrow>
        heap w' other =
          Some (if other \<in> set v \<and> eligible src1 \<and> due_at (clock w (Suc (clock_reads w))) src1
                then fired src1 else src1) \<and>
        (other \<in> set (members w') \<longleftrightarrow>
           other \<in> set v \<and> \<not> due_at (next_reading w) src \<and>
           \<not> (eligible src1 \<and> due_at (clock w (Suc (clock_reads w))) src1)) \<and>
        (TimerFired other \<in> set tr \<longleftrightarrow>
           other \<in> set v \<and> (due_at (next_reading w) src \<or>
             eligible src1 \<and> due_at (clock w (Suc (clock_reads w))) src1)))"
proof -
  let ?now1 = "next_reading w"
  let ?now2 = "clock w (Suc (clock_reads w))"
  let ?vr = "filter (\<lambda>p. p \<noteq> this) v"
  let ?wt = "TRACE [copy_trace this other src] w"
  define src1 where
    "src1 = (if other \<in> set v \<and> other \<noteq> this \<and> due_at ?now1 src then fired src else src)"
  define el where "el \<longleftrightarrow> eligible src1"
  define e2 where "e2 \<longleftrightarrow> due_at ?now2 src1"
  have 1: "spTimers ?wt = Some v" using sp by simp
  have 2: "\<forall>p\<in>set v. heap ?wt p \<noteq> None" using live by simp
  have 3: "\<forall>tv. \<not> setitimer_fails ?wt tv" using os by simp
  have n1: "next_reading ?wt = ?now1" by (simp add: next_reading_def)
  from Timers_Remove_default [OF 1 2 3, of this] obtain w1 tr1 where
    rem: "Timers_Remove Timer_OnExpire this ?wt = Some (Returns w1)"
    and sp1: "spTimers w1 = Some (filter (\<lambda>p. \<not> expired_at ?now1 (heap w) p) ?vr)"
    and hp1: "heap w1 = fire_all ?now1 (heap w) ?vr"
    and tr1: "trace w1 = trace w @ [copy_trace this other src] @ tr1"
    and f1: "\<forall>x. TimerFired x \<in> set tr1 \<longleftrightarrow> x \<in> set v \<and> x \<noteq> this \<and> expired_at ?now1 (heap w) x"
    and cr1: "clock_reads w1 = Suc (clock_reads w)" and ck1: "clock w1 = clock w"
    and os1: "setitimer_fails w1 = setitimer_fails w"
    unfolding n1 by auto
  let ?v1 = "filter (\<lambda>p. \<not> expired_at ?now1 (heap w) p) ?vr"
  have m1: "members w1 = ?v1" using sp1 by (simp add: members_def)
  have a1: "this \<notin> set (members w1)" unfolding m1 by simp
  have a2: "\<forall>p. p \<noteq> this \<longrightarrow>
        (p \<in> set (members w1) \<longleftrightarrow> p \<in> set v \<and> \<not> expired_at ?now1 (heap w) p)"
    unfolding m1 by auto
  have t1: "heap w1 this = Some dst"
    using hp1 dst by (simp add: fire_all_not_member)
  have o1: "heap w1 other = Some src1"
    unfolding hp1 src1_def using fire_all_Some [of "heap w" other src ?now1 ?vr] src by auto
  have xo: "expired_at ?now1 (heap w) other \<longleftrightarrow> due_at ?now1 src"
    using src expired_at_due [of "heap w" other src ?now1] by simp
  let ?w2 = "w1\<lparr>heap := (heap w1)(this \<mapsto> src1)\<rparr>"
  have step: "Timer_assign Timer_OnExpire this other w =
      (if el then Timers_Add Timer_OnExpire this ?w2 else Some (Returns ?w2))"
    using dst src rem o1 t1
    by (simp add: Timer_assign_def Let_def Timer_eta el_def eligible_def)
  have cnt: "count_list ?v1 this = 0"
    by (induction v) auto
  have over: "\<forall>p. p \<noteq> this \<and> p \<in> set v \<and> expired_at ?now1 (heap w) p \<longrightarrow> TimerFired p \<in> set tr1"
    using f1 by blast
  have ex1: "mExpires src1 = mExpires src" and d1: "due_at t src1 = due_at t src" for t
    by (simp_all add: src1_def)
  have el_src: "src1 = src" if el
    using that unfolding el_def src1_def by (auto split: if_splits)
  have el_nd: "\<not> (other \<in> set v \<and> other \<noteq> this \<and> due_at ?now1 src)" if el
    using that unfolding el_def src1_def by (auto split: if_splits)
  show ?thesis
  proof (cases el)
    case False
    let ?tr = "[copy_trace this other src] @ tr1"
    have res: "Timer_assign Timer_OnExpire this other w = Some (Returns ?w2)"
      using step False by simp
    have b1: "trace ?w2 = trace w @ ?tr" using tr1 by simp
    have b2: "heap ?w2 this = Some (if el \<and> e2 then fired src1 else src1)"
      using False by simp
    have b3: "this \<in> set (members ?w2) \<longleftrightarrow> el \<and> \<not> e2"
      using False m1 by (simp add: members_def sp1)
    have b4: "count_list (members ?w2) this \<le> 1"
      using cnt sp1 by (simp add: members_def)
    have b5: "TimerFired this \<in> set ?tr \<longleftrightarrow> el \<and> e2"
      using False f1 by simp
    have b6: "heap ?w2 other = Some (if other \<in> set v \<and> el \<and> e2 then fired src1 else src1)"
      if "other \<noteq> this"
      using that False o1 by simp
    have b7: "other \<in> set (members ?w2) \<longleftrightarrow> other \<in> set v \<and> \<not> due_at ?now1 src \<and> \<not> (el \<and> e2)"
      if "other \<noteq> this"
      using that False sp1 xo by (simp add: members_def)
    have b8: "TimerFired other \<in> set ?tr \<longleftrightarrow> other \<in> set v \<and> (due_at ?now1 src \<or> el \<and> e2)"
      if "other \<noteq> this"
      using that False f1 xo by simp
    have b9: "\<forall>p. p \<noteq> this \<and> p \<in> set v \<and> expired_at ?now1 (heap w) p \<longrightarrow> TimerFired p \<in> set ?tr"
      using over by simp
    from rem a1 a2 t1 o1 step res b1 b9 b2 b3 b4 b5 b6 b7 b8 show ?thesis
      unfolding el_def e2_def src1_def [symmetric]
      by (intro exI [of _ w1] exI [of _ src1] exI [of _ ?w2] exI [of _ ?tr] conjI impI)
        (simp_all only: src1_def [symmetric] simp_thms)
  next
    case True
    note s = el_src [OF True]
    have g1: "spTimers ?w2 = Some ?v1" using sp1 by simp
    have "heap w1 p \<noteq> None" if "p \<in> set v" for p
      unfolding hp1 using live that by (intro fire_all_live) simp
    then have g2: "\<forall>p\<in>set (?v1 @ [this]). heap ?w2 p \<noteq> None"
      by simp
    have g3: "\<forall>tv. \<not> setitimer_fails ?w2 tv" using os os1 by simp
    have n2: "next_reading ?w2 = ?now2" by (simp add: next_reading_def cr1 ck1)
    from Timers_Add_default [OF g1 g2 g3] obtain w3 tr2 where
      add: "Timers_Add Timer_OnExpire this ?w2 = Some (Returns w3)"
      and sp3: "spTimers w3 = Some (filter (\<lambda>p. \<not> expired_at ?now2 (heap ?w2) p) (?v1 @ [this]))"
      and hp3: "heap w3 = fire_all ?now2 (heap ?w2) (?v1 @ [this])"
      and tr3: "trace w3 = trace ?w2 @ tr2"
      and f3: "\<forall>x. TimerFired x \<in> set tr2 \<longleftrightarrow>
          x \<in> set (?v1 @ [this]) \<and> expired_at ?now2 (heap ?w2) x"
      unfolding n2 by blast
    let ?tr = "[copy_trace this other src] @ tr1 @ tr2"
    have res: "Timer_assign Timer_OnExpire this other w = Some (Returns w3)"
      using step True add by simp
    have h2t: "heap ?w2 this = Some src1" by simp
    have xt: "expired_at ?now2 (heap ?w2) this \<longleftrightarrow> e2"
      unfolding e2_def using h2t expired_at_due [of "heap ?w2" this src1 ?now2] by simp
    have b1: "trace w3 = trace w @ ?tr" using tr3 tr1 by simp
    have b2: "heap w3 this = Some (if el \<and> e2 then fired src1 else src1)"
      unfolding hp3 using fire_all_Some [of "heap ?w2" this src1 ?now2 "?v1 @ [this]"] h2t True
      by (simp add: e2_def)
    have m3: "members w3 = filter (\<lambda>p. \<not> expired_at ?now2 (heap ?w2) p) ?v1 @ (if e2 then [] else [this])"
      using sp3 xt by (simp add: members_def)
    have b3: "this \<in> set (members w3) \<longleftrightarrow> el \<and> \<not> e2"
      using m3 True by simp
    have "count_list (filter (\<lambda>p. \<not> expired_at ?now2 (heap ?w2) p) ?v1) this = 0"
      by (induction v) auto
    then have b4: "count_list (members w3) this \<le> 1" using m3 by simp
    have b5: "TimerFired this \<in> set ?tr \<longleftrightarrow> el \<and> e2"
      using True f1 f3 xt by simp
    have b9: "\<forall>p. p \<noteq> this \<and> p \<in> set v \<and> expired_at ?now1 (heap w) p \<longrightarrow> TimerFired p \<in> set ?tr"
      using over by simp
    have oth: "heap ?w2 other = Some src1" if "other \<noteq> this"
      using that o1 by simp
    have xo2: "expired_at ?now2 (heap ?w2) other \<longleftrightarrow> e2" if "other \<noteq> this"
      unfolding e2_def using oth [OF that] expired_at_due [of "heap ?w2" other src1 ?now2] by simp
    have in1: "other \<in> set ?v1 \<longleftrightarrow> other \<in> set v" if "other \<noteq> this"
      using that el_nd [OF True] xo by auto
    have nd1: "\<not> due_at ?now1 src" if "other \<noteq> this" "other \<in> set v"
      using that el_nd [OF True] by simp
    have b6: "heap w3 other = Some (if other \<in> set v \<and> el \<and> e2 then fired src1 else src1)"
      if "other \<noteq> this"
    proof -
      from fire_all_Some [of "heap ?w2" other src1 ?now2 "?v1 @ [this]", OF oth [OF that]]
      have h: "heap w3 other =
          Some (if other \<in> set (?v1 @ [this]) \<and> due_at ?now2 src1 then fired src1 else src1)"
        unfolding hp3 .
      have eq: "(other \<in> set (?v1 @ [this]) \<and> due_at ?now2 src1) = (other \<in> set v \<and> el \<and> e2)"
        using in1 [OF that] that True by (auto simp: e2_def)
      show ?thesis using h unfolding eq .
    qed
    have b7: "other \<in> set (members w3) \<longleftrightarrow> other \<in> set v \<and> \<not> due_at ?now1 src \<and> \<not> (el \<and> e2)"
      if "other \<noteq> this"
      using that m3 in1 [OF that] xo2 [OF that] nd1 [OF that] True by auto
    have b8: "TimerFired other \<in> set ?tr \<longleftrightarrow> other \<in> set v \<and> (due_at ?now1 src \<or> el \<and> e2)"
      if "other \<noteq> this"
      using that f1 f3 in1 [OF that] xo2 [OF that] xo nd1 [OF that] True by auto
    from rem a1 a2 t1 o1 step res b1 b9 b2 b3 b4 b5 b6 b7 b8 show ?thesis
      unfolding el_def e2_def src1_def [symmetric]
      by (intro exI [of _ w1] exI [of _ src1] exI [of _ w3] exI [of _ ?tr] conjI impI)
        (simp_all only: src1_def [symmetric] simp_thms)
  qed
qed

lemma count_list_filter: "count_list (filter P xs) x = (if P x then count_list xs x else 0)"
  by (induction xs) auto

lemma Timer_copy_default:
  assumes sp: "spTimers w = Some v" and live: "\<forall>p\<in>set v. heap w p \<noteq> None"
    and src: "heap w t1 = Some src" and ne: "t2 \<noteq> t1"
    and os: "\<forall>tv. \<not> setitimer_fails w tv"
  shows "\<exists>w' tr.
     Timer_copy Timer_OnExpire t2 t1 w =
       (if eligible src
        then Timers_Add Timer_OnExpire t2
               (TRACE [copy_trace t2 t1 src] (w\<lparr>heap := (heap w)(t2 \<mapsto> src)\<rparr>))
        else Some (Returns (TRACE [copy_trace t2 t1 src] (w\<lparr>heap := (heap w)(t2 \<mapsto> src)\<rparr>)))) \<and>
     Timer_copy Timer_OnExpire t2 t1 w = Some (Returns w') \<and>
     trace w' = trace w @ tr \<and>
     heap w' t2 = Some (if eligible src \<and> due_at (next_reading w) src then fired src else src) \<and>
     heap w' t1 =
       Some (if eligible src \<and> t1 \<in> set v \<and> due_at (next_reading w) src then fired src else src) \<and>
     (eligible src \<longrightarrow>
        (t2 \<in> set (members w') \<longleftrightarrow> \<not> due_at (next_reading w) src) \<and>
        (\<not> due_at (next_reading w) src \<longrightarrow>
           count_list (members w') t2 = Suc (count_list v t2)) \<and>
        clock_reads w' = Suc (clock_reads w)) \<and>
     (\<not> eligible src \<longrightarrow>
        members w' = v \<and> it_value w' = it_value w \<and> clock_reads w' = clock_reads w) \<and>
     (t1 \<in> set (members w') \<longleftrightarrow>
        t1 \<in> set v \<and> \<not> (eligible src \<and> due_at (next_reading w) src)) \<and>
     (TimerFired t2 \<in> set tr \<longleftrightarrow> eligible src \<and> due_at (next_reading w) src) \<and>
     (TimerFired t1 \<in> set tr \<longleftrightarrow> eligible src \<and> t1 \<in> set v \<and> due_at (next_reading w) src) \<and>
     spTimers w' = Some (members w') \<and> (\<forall>p\<in>set (members w'). heap w' p \<noteq> None) \<and>
     setitimer_fails w' = setitimer_fails w \<and> clock w' = clock w"
proof -
  let ?now = "next_reading w"
  let ?h1 = "(heap w)(t2 \<mapsto> src)"
  let ?w1 = "TRACE [copy_trace t2 t1 src] (w\<lparr>heap := ?h1\<rparr>)"
  define el where "el \<longleftrightarrow> eligible src"
  define due where "due \<longleftrightarrow> due_at ?now src"
  have step: "Timer_copy Timer_OnExpire t2 t1 w =
      (if el then Timers_Add Timer_OnExpire t2 ?w1 else Some (Returns ?w1))"
    using src by (simp add: Timer_copy_def Let_def Timer_eta el_def eligible_def)
  have h1t1: "?h1 t1 = Some src" using src ne by simp
  have h1t2: "?h1 t2 = Some src" by simp
  show ?thesis
  proof (cases el)
    case False
    let ?tr = "[copy_trace t2 t1 src]"
    have res: "Timer_copy Timer_OnExpire t2 t1 w = Some (Returns ?w1)"
      using step False by simp
    have b1: "trace ?w1 = trace w @ ?tr" by simp
    have b2: "heap ?w1 t2 = Some (if el \<and> due then fired src else src)" using False by simp
    have b3: "heap ?w1 t1 = Some (if el \<and> t1 \<in> set v \<and> due then fired src else src)"
      using False h1t1 by simp
    have m: "members ?w1 = v" using sp by (simp add: members_def)
    have b5: "members ?w1 = v \<and> it_value ?w1 = it_value w \<and> clock_reads ?w1 = clock_reads w"
      using m by simp
    have b6: "t1 \<in> set (members ?w1) \<longleftrightarrow> t1 \<in> set v \<and> \<not> (el \<and> due)"
      using m False by simp
    have b7: "TimerFired t2 \<in> set ?tr \<longleftrightarrow> el \<and> due" using False by simp
    have b8: "TimerFired t1 \<in> set ?tr \<longleftrightarrow> el \<and> t1 \<in> set v \<and> due" using False by simp
    have b9: "spTimers ?w1 = Some (members ?w1)" using sp m by simp
    have b10: "\<forall>p\<in>set (members ?w1). heap ?w1 p \<noteq> None" unfolding m using live by simp
    have b11: "setitimer_fails ?w1 = setitimer_fails w \<and> clock ?w1 = clock w" by simp
    from step res b1 b2 b3 b5 b6 b7 b8 b9 b10 b11 False show ?thesis
      unfolding el_def due_def
      by (intro exI [of _ ?w1] exI [of _ ?tr] conjI impI) (simp_all only: simp_thms)
  next
    case True
    have a1: "spTimers ?w1 = Some v" using sp by simp
    have a2: "\<forall>p\<in>set (v @ [t2]). heap ?w1 p \<noteq> None" using live by simp
    have a3: "\<forall>tv. \<not> setitimer_fails ?w1 tv" using os by simp
    have n1: "next_reading ?w1 = ?now" by (simp add: next_reading_def)
    from Timers_Add_default [OF a1 a2 a3] obtain w3 tr2 where
      add: "Timers_Add Timer_OnExpire t2 ?w1 = Some (Returns w3)"
      and sp3: "spTimers w3 = Some (filter (\<lambda>p. \<not> expired_at ?now ?h1 p) (v @ [t2]))"
      and hp3: "heap w3 = fire_all ?now ?h1 (v @ [t2])"
      and tr3: "trace w3 = trace w @ [copy_trace t2 t1 src] @ tr2"
      and f3: "\<forall>x. TimerFired x \<in> set tr2 \<longleftrightarrow> x \<in> set (v @ [t2]) \<and> expired_at ?now ?h1 x"
      and cr3: "clock_reads w3 = Suc (clock_reads w)" and ck3: "clock w3 = clock w"
      and os3: "setitimer_fails w3 = setitimer_fails w"
      unfolding n1 by auto
    let ?tr = "[copy_trace t2 t1 src] @ tr2"
    have res: "Timer_copy Timer_OnExpire t2 t1 w = Some (Returns w3)"
      using step True add by simp
    have x2: "expired_at ?now ?h1 t2 \<longleftrightarrow> due"
      unfolding due_def using expired_at_due [of ?h1 t2 src ?now] by simp
    have x1: "expired_at ?now ?h1 t1 \<longleftrightarrow> due"
      unfolding due_def using expired_at_due [of ?h1 t1 src ?now] h1t1 by simp
    have m3: "members w3 = filter (\<lambda>p. \<not> expired_at ?now ?h1 p) (v @ [t2])"
      using sp3 by (simp add: members_def)
    have b2: "heap w3 t2 = Some (if el \<and> due then fired src else src)"
      unfolding hp3 using fire_all_Some [of ?h1 t2 src ?now "v @ [t2]"] True
      by (simp add: due_def)
    have b3: "heap w3 t1 = Some (if el \<and> t1 \<in> set v \<and> due then fired src else src)"
    proof -
      from fire_all_Some [of ?h1 t1 src ?now "v @ [t2]", OF h1t1]
      have h: "heap w3 t1 = Some (if t1 \<in> set (v @ [t2]) \<and> due_at ?now src then fired src else src)"
        unfolding hp3 .
      have eq: "(t1 \<in> set (v @ [t2]) \<and> due_at ?now src) = (el \<and> t1 \<in> set v \<and> due)"
        using ne True by (auto simp: due_def)
      show ?thesis using h unfolding eq .
    qed
    have b4: "t2 \<in> set (members w3) \<longleftrightarrow> \<not> due" unfolding m3 using x2 by auto
    have b4c: "count_list (members w3) t2 = Suc (count_list v t2)" if "\<not> due"
      unfolding m3 using that x2 by (simp add: count_list_filter)
    have b6: "t1 \<in> set (members w3) \<longleftrightarrow> t1 \<in> set v \<and> \<not> (el \<and> due)"
      unfolding m3 using x1 ne True by auto
    have b7: "TimerFired t2 \<in> set ?tr \<longleftrightarrow> el \<and> due" using f3 x2 True by simp
    have b8: "TimerFired t1 \<in> set ?tr \<longleftrightarrow> el \<and> t1 \<in> set v \<and> due" using f3 x1 ne True by auto
    have b9: "spTimers w3 = Some (members w3)" using sp3 m3 by simp
    have "heap w3 p \<noteq> None" if "p \<in> set (v @ [t2])" for p
      unfolding hp3 using live that by (intro fire_all_live) auto
    then have b10: "\<forall>p\<in>set (members w3). heap w3 p \<noteq> None"
      unfolding m3 by simp
    from step res tr3 b2 b3 b4 b4c cr3 b6 b7 b8 b9 b10 os3 ck3 True show ?thesis
      unfolding el_def due_def
      by (intro exI [of _ w3] exI [of _ ?tr] conjI impI) (simp_all only: simp_thms)
  qed
qed

lemma Timer_dtor_keeps_other:
  assumes sp: "spTimers w = Some v" and live: "\<forall>p\<in>set v. heap w p \<noteq> None"
    and os: "\<forall>tv. \<not> setitimer_fails w tv"
    and t2: "t2 \<in> set v" and obj: "heap w t2 = Some x" and ne: "t2 \<noteq> t1"
  shows "\<exists>w2. Timer_dtor Timer_OnExpire t1 w = Some (Returns w2) \<and>
     heap w2 t1 = None \<and> t1 \<notin> set (members w2) \<and>
     heap w2 t2 = Some (if due_at (next_reading w) x then fired x else x) \<and>
     (t2 \<in> set (members w2) \<longleftrightarrow> \<not> due_at (next_reading w) x)"
proof -
  let ?n = "next_reading w"
  let ?vr = "filter (\<lambda>p. p \<noteq> t1) v"
  from Timer_dtor_default [OF sp live os, of t1] obtain w2 where
    d: "Timer_dtor Timer_OnExpire t1 w = Some (Returns w2)"
    and sp2: "spTimers w2 = Some (filter (\<lambda>p. \<not> expired_at ?n (heap w) p) ?vr)"
    and hp2: "heap w2 = (fire_all ?n (heap w) ?vr)(t1 := None)"
    by blast
  have x: "expired_at ?n (heap w) t2 \<longleftrightarrow> due_at ?n x"
    using obj expired_at_due [of "heap w" t2 x ?n] by simp
  have in2: "t2 \<in> set ?vr" using t2 ne by simp
  have "heap w2 t2 = fire_all ?n (heap w) ?vr t2" using hp2 ne by simp
  also have "\<dots> = Some (if t2 \<in> set ?vr \<and> due_at ?n x then fired x else x)"
    using obj by (rule fire_all_Some [of "heap w" t2 x ?n ?vr])
  finally have c1: "heap w2 t2 = Some (if due_at ?n x then fired x else x)"
    using in2 by simp
  have c2: "t2 \<in> set (members w2) \<longleftrightarrow> \<not> due_at ?n x"
    using sp2 in2 x by (simp add: members_def)
  have c3: "heap w2 t1 = None" using hp2 by simp
  have c4: "t1 \<notin> set (members w2)" using sp2 by (simp add: members_def)
  from d c1 c2 c3 c4 show ?thesis by blast
qed

lemmas run_defs = Reschedule_def base_world_def GetCurrentBoxTime_def
      expiry_pass.simps arm_next_def Let_def TRACE_def members_def Timer_OnExpire_def
      erase_at_def make_timeout_def BoxTimeToSeconds_def BoxTimeToMicroSeconds_def
      MICRO_SEC_IN_SEC_def Timers_Add_def Timers_Remove_def remove_loop.simps
      Timer_ctor_def Timer_dtor_def Timer_copy_def Timer_assign_def copy_trace_def
      SecondsToBoxTime_def

section \<open>The claims\<close>


lemma due_world_run:
  "\<exists>w'. Reschedule Timer_OnExpire due_world = Some (Returns w') \<and> members w' = [3] \<and>
     trace w' = [TimerHasExpired 1, TimerFired 1, TimerHasExpired 2, TimerFired 2,
                 TimerNotExpired 3 1000000] \<and>
     map_option mExpired (heap w' 1) = Some True \<and> map_option mExpired (heap w' 2) = Some True \<and>
     map_option mExpired (heap w' 3) = Some False \<and> it_value w' = \<lparr>tv_sec = 1, tv_usec = 0\<rparr>"
  by (simp add: Reschedule_def due_world_def base_world_def GetCurrentBoxTime_def
      expiry_pass.simps arm_next_def Let_def TRACE_def members_def Timer_OnExpire_def
      erase_at_def make_timeout_def BoxTimeToSeconds_def BoxTimeToMicroSeconds_def
      MICRO_SEC_IN_SEC_def)









text \<open>
  C3 (as amended): \<open>OnExpire\<close> is called while the dispatched timer is still a member of
  the set, and the timer is erased only after the call has returned: replacing every
  callback by one that fails unless its timer is a member when it is called does not
  change the expiry pass. When a callback throws, the erase is skipped and the exception
  leaves \<open>Reschedule\<close> with the state the callback threw in: every callback exception
  that comes out of \<open>Reschedule\<close> was thrown by a callback that had been called with
  its timer in the set, so the timer is still a member then unless the callback itself
  removed it.
\<close>

theorem OnExpire_runs_before_erase:
  "expiry_pass (while_member OnExpire) timeNow w = expiry_pass OnExpire timeNow w \<and>
   (\<forall>n w'. Reschedule OnExpire w = Some (Throws (CallbackException n) w') \<longrightarrow>
      (\<exists>a w0. a \<in> set (members w0) \<and> OnExpire a w0 = Throws (CallbackException n) w')) \<and>
   (\<forall>v tr i e w'. spTimers w = Some v \<and> scan_expired timeNow (heap w) 0 v = (tr, ScanFound i) \<and>
      OnExpire (v ! i) (TRACE tr w) = Throws e w' \<longrightarrow>
      v ! i \<in> set (members (TRACE tr w)) \<and> expiry_pass OnExpire timeNow w = Some (Throws e w'))"
proof (intro conjI allI impI)
  show "expiry_pass (while_member OnExpire) timeNow w = expiry_pass OnExpire timeNow w"
    by (rule expiry_pass_while_member)
next
  fix n w'
  assume "Reschedule OnExpire w = Some (Throws (CallbackException n) w')"
  then show "\<exists>a w0. a \<in> set (members w0) \<and> OnExpire a w0 = Throws (CallbackException n) w'"
    by (rule Reschedule_throw_origin)
next
  fix v tr i e w'
  assume a: "spTimers w = Some v \<and> scan_expired timeNow (heap w) 0 v = (tr, ScanFound i) \<and>
      OnExpire (v ! i) (TRACE tr w) = Throws e w'"
  then show "v ! i \<in> set (members (TRACE tr w))"
    using scan_Found_member(2) [of timeNow "heap w" v tr i] by (simp add: members_def)
  from a show "expiry_pass OnExpire timeNow w = Some (Throws e w')"
    by (subst expiry_pass.simps) simp
qed

lemma throwing_run:
  "Reschedule throwing_callback due_world =
     Some (Throws (CallbackException 0)
       (TRACE [TimerHasExpired 1] (due_world\<lparr>sRescheduleNeeded := False, clock_reads := 1\<rparr>)))"
  by (simp add: Reschedule_def due_world_def base_world_def GetCurrentBoxTime_def
      expiry_pass.simps throwing_callback_def)

text \<open>
  The claim as stated fails: the callback of timer 1 throws, and when the exception has
  left \<open>Reschedule\<close> timer 1 is still in the set.
\<close>

theorem dispatched_timer_not_removed_on_throw:
  "Reschedule throwing_callback due_world =
     Some (Throws (CallbackException 0)
       (TRACE [TimerHasExpired 1] (due_world\<lparr>sRescheduleNeeded := False, clock_reads := 1\<rparr>))) \<and>
   1 \<in> set (members (TRACE [TimerHasExpired 1]
       (due_world\<lparr>sRescheduleNeeded := False, clock_reads := 1\<rparr>)))"
  using throwing_run by (simp add: members_def due_world_def)

theorem OnExpire_runs_before_erase_witness:
  "expiry_pass (while_member throwing_callback) 1000000 due_world =
     Some (Throws (CallbackException 0) (TRACE [TimerHasExpired 1] due_world)) \<and>
   1 \<in> set (members (TRACE [TimerHasExpired 1] due_world)) \<and>
   (\<exists>a w0. a \<in> set (members w0) \<and>
      throwing_callback a w0 = Throws (CallbackException 0)
        (TRACE [TimerHasExpired 1] (due_world\<lparr>sRescheduleNeeded := False, clock_reads := 1\<rparr>)))"
proof -
  note th = OnExpire_runs_before_erase [of throwing_callback 1000000 due_world]
  have sp: "spTimers due_world = Some [1, 2, 3]"
    by (simp add: due_world_def)
  have scan: "scan_expired 1000000 (heap due_world) 0 [1, 2, 3] = ([TimerHasExpired 1], ScanFound 0)"
    by (simp add: due_world_def)
  have cb: "throwing_callback ([1, 2, 3] ! 0) (TRACE [TimerHasExpired 1] due_world) =
      Throws (CallbackException 0) (TRACE [TimerHasExpired 1] due_world)"
    by (simp add: throwing_callback_def)
  from th sp scan cb have
    m: "[1, 2, 3] ! 0 \<in> set (members (TRACE [TimerHasExpired 1] due_world))"
    and e: "expiry_pass throwing_callback 1000000 due_world =
      Some (Throws (CallbackException 0) (TRACE [TimerHasExpired 1] due_world))"
    by blast+
  from th e have g: "expiry_pass (while_member throwing_callback) 1000000 due_world =
      Some (Throws (CallbackException 0) (TRACE [TimerHasExpired 1] due_world))"
    by simp
  from th throwing_run have "\<exists>a w0. a \<in> set (members w0) \<and>
      throwing_callback a w0 = Throws (CallbackException 0)
        (TRACE [TimerHasExpired 1] (due_world\<lparr>sRescheduleNeeded := False, clock_reads := 1\<rparr>))"
    by blast
  with g m show ?thesis by simp
qed

text \<open>
  C5 (as amended): after \<open>Timers::Cleanup\<close> has returned, the set is gone, the interval
  timer is disarmed and the handler is uninstalled. In every state without a set, whatever
  its clock says, \<open>Reschedule\<close>, the poll hook with the flag set, \<open>Add\<close> and \<open>Remove\<close>
  fail \<open>ASSERT(spTimers)\<close> before the clock is read or any \<open>OnExpire\<close> is called, and
  leave the store and the trace as they were: no callback fires. A Timer that outlives
  \<open>Cleanup\<close> is not protected: its destructor calls \<open>Timers::Remove\<close>, which fails that
  assertion.
\<close>

theorem no_dispatch_after_Cleanup:
  assumes "Timers_Cleanup w = Returns w'"
  shows "spTimers w' = None \<and> it_value w' = \<lparr>tv_sec = 0, tv_usec = 0\<rparr> \<and> sigalrm w' = SIG_DFL \<and>
     heap w' = heap w \<and> trace w' = trace w \<and>
     (\<forall>u OnExpire this. spTimers u = None \<longrightarrow>
        Reschedule OnExpire u = Some (Throws AssertFailed u) \<and>
        PollIfNeeded OnExpire u =
          (if sRescheduleNeeded u then Some (Throws AssertFailed u) else Some (Returns u)) \<and>
        Timers_Add OnExpire this u = Some (Throws AssertFailed u) \<and>
        Timers_Remove OnExpire this u = Some (Throws AssertFailed u) \<and>
        Timer_dtor OnExpire this u = Some (Throws AssertFailed (TRACE [TimerDestroyed this] u)))"
proof -
  from assms have w': "w' = w\<lparr>it_value := \<lparr>tv_sec = 0, tv_usec = 0\<rparr>, sigalrm := SIG_DFL, spTimers := None\<rparr>"
    by (auto simp: Timers_Cleanup_def Let_def split: if_splits)
  have "Reschedule OnExpire u = Some (Throws AssertFailed u) \<and>
        PollIfNeeded OnExpire u =
          (if sRescheduleNeeded u then Some (Throws AssertFailed u) else Some (Returns u)) \<and>
        Timers_Add OnExpire this u = Some (Throws AssertFailed u) \<and>
        Timers_Remove OnExpire this u = Some (Throws AssertFailed u) \<and>
        Timer_dtor OnExpire this u = Some (Throws AssertFailed (TRACE [TimerDestroyed this] u))"
    if "spTimers u = None" for u :: world and OnExpire this
    using that
    by (simp add: Reschedule_def PollIfNeeded_def Timers_Add_def Timers_Remove_def Timer_dtor_def)
  then show ?thesis
    unfolding w' by simp
qed

lemma Cleanup_two_timers: "Timers_Cleanup two_timers = Returns cleaned_up"
  by (simp add: Timers_Cleanup_def two_timers_def base_world_def cleaned_up_def Let_def)

text \<open>
  The claim as stated fails: the destructor of a Timer that has outlived \<open>Cleanup\<close>
  does try to unregister it.
\<close>

theorem destructor_after_Cleanup_unregisters:
  "Timers_Cleanup two_timers = Returns cleaned_up \<and>
   heap cleaned_up 1 = Some \<lparr>mExpires = 1000001, mExpired = False\<rparr> \<and>
   Timer_dtor Timer_OnExpire 1 cleaned_up =
     Some (Throws AssertFailed (TRACE [TimerDestroyed 1] cleaned_up))"
  using Cleanup_two_timers
  by (simp add: Timer_dtor_def Timers_Remove_def cleaned_up_def two_timers_def)

theorem no_dispatch_after_Cleanup_witness:
  "spTimers cleaned_up = None \<and> sigalrm cleaned_up = SIG_DFL \<and>
   Reschedule Timer_OnExpire (cleaned_up\<lparr>clock := (\<lambda>n. 99000000), sRescheduleNeeded := True\<rparr>) =
     Some (Throws AssertFailed (cleaned_up\<lparr>clock := (\<lambda>n. 99000000), sRescheduleNeeded := True\<rparr>)) \<and>
   PollIfNeeded Timer_OnExpire (cleaned_up\<lparr>clock := (\<lambda>n. 99000000), sRescheduleNeeded := True\<rparr>) =
     Some (Throws AssertFailed (cleaned_up\<lparr>clock := (\<lambda>n. 99000000), sRescheduleNeeded := True\<rparr>))"
proof -
  note th = no_dispatch_after_Cleanup [OF Cleanup_two_timers]
  let ?u = "cleaned_up\<lparr>clock := (\<lambda>n. 99000000), sRescheduleNeeded := True\<rparr>"
  from th have n: "spTimers cleaned_up = None" and s: "sigalrm cleaned_up = SIG_DFL" by simp_all
  then have "spTimers ?u = None" by simp
  with th have "Reschedule Timer_OnExpire ?u = Some (Throws AssertFailed ?u)"
    and "PollIfNeeded Timer_OnExpire ?u =
          (if sRescheduleNeeded ?u then Some (Throws AssertFailed ?u) else Some (Returns ?u))"
    by blast+
  with n s show ?thesis by simp
qed

text \<open>
  C9 (as amended): a member whose \<open>expires_at\<close> is 0 gets no treatment of its own. At
  every clock reading below \<open>2^63\<close> the difference \<open>0 - now\<close> is not positive, so the
  member is handled as any due timer: it is traced as expired, its \<open>OnExpire\<close> is
  invoked (with \<open>Timer::OnExpire\<close>, the flag is set), and then it is erased.
\<close>

theorem sentinel_member_is_dispatched:
  assumes sp: "spTimers w = Some v" and live: "\<forall>p\<in>set v. heap w p \<noteq> None"
    and os: "\<forall>tv. \<not> setitimer_fails w tv"
    and p: "p \<in> set v" and t: "heap w p = Some t" and z: "mExpires t = 0"
    and now: "uint (next_reading w) < 2 ^ 63"
  shows "\<exists>w' tr. Reschedule Timer_OnExpire w = Some (Returns w') \<and> trace w' = trace w @ tr \<and>
     TimerHasExpired p \<in> set tr \<and> TimerFired p \<in> set tr \<and> p \<notin> set (members w') \<and>
     heap w' p = Some (t\<lparr>mExpired := True\<rparr>)"
proof -
  let ?now = "next_reading w"
  have "sint (0 - ?now) \<le> 0"
    using now by (intro le_imp_expired) simp_all
  with t z have ex: "expired_at ?now (heap w) p"
    by (simp add: expired_at_def)
  from Reschedule_default [OF sp live os] obtain w' tr where
    r: "Reschedule Timer_OnExpire w = Some (Returns w')"
    and sp': "spTimers w' = Some (filter (\<lambda>p. \<not> expired_at ?now (heap w) p) v)"
    and h': "heap w' = fire_all ?now (heap w) v"
    and tr: "trace w' = trace w @ tr"
    and fired: "\<forall>x. TimerFired x \<in> set tr \<longleftrightarrow> x \<in> set v \<and> expired_at ?now (heap w) x"
    and has: "\<forall>x. TimerHasExpired x \<in> set tr \<longleftrightarrow> x \<in> set v \<and> expired_at ?now (heap w) x"
    by blast
  have "heap w' p = Some (t\<lparr>mExpired := True\<rparr>)"
    using h' p ex t by (simp add: fire_all_def)
  moreover have "p \<notin> set (members w')"
    using sp' ex by (simp add: members_def)
  ultimately show ?thesis
    using r tr fired has p ex by blast
qed

lemma sentinel_run:
  "map_option (trace \<circ> world_of) (Reschedule Timer_OnExpire sentinel_world) =
     Some [TimerHasExpired 1, TimerFired 1]"
  by (simp add: Reschedule_def sentinel_world_def base_world_def GetCurrentBoxTime_def
      expiry_pass.simps arm_next_def Let_def TRACE_def members_def Timer_OnExpire_def
      erase_at_def world_of_def)

text \<open>
  The claim as stated fails: the only member has \<open>expires_at = 0\<close>, and the trace of
  \<open>Reschedule\<close> shows \<open>Timer::OnExpire\<close> running for it.
\<close>

theorem sentinel_member_has_OnExpire_invoked:
  "map_option mExpires (heap sentinel_world 1) = Some 0 \<and> members sentinel_world = [1] \<and>
   map_option (trace \<circ> world_of) (Reschedule Timer_OnExpire sentinel_world) =
     Some [TimerHasExpired 1, TimerFired 1]"
  using sentinel_run by (simp add: sentinel_world_def members_def)

theorem sentinel_member_is_dispatched_witness:
  "\<exists>w' tr. Reschedule Timer_OnExpire sentinel_world = Some (Returns w') \<and>
     trace w' = trace sentinel_world @ tr \<and>
     TimerHasExpired 1 \<in> set tr \<and> TimerFired 1 \<in> set tr \<and> 1 \<notin> set (members w') \<and>
     heap w' 1 = Some \<lparr>mExpires = 0, mExpired = True\<rparr>"
proof -
  have sp: "spTimers sentinel_world = Some [1]"
    by (simp add: sentinel_world_def)
  have live: "\<forall>p\<in>set [1]. heap sentinel_world p \<noteq> None"
    by (simp add: sentinel_world_def)
  have os: "\<forall>tv. \<not> setitimer_fails sentinel_world tv"
    by (simp add: sentinel_world_def base_world_def)
  have t: "heap sentinel_world 1 = Some \<lparr>mExpires = 0, mExpired = False\<rparr>"
    by (simp add: sentinel_world_def)
  have now: "uint (next_reading sentinel_world) < 2 ^ 63"
    by (simp add: next_reading_def sentinel_world_def base_world_def)
  from sentinel_member_is_dispatched [OF sp live os _ t _ now]
  show ?thesis by simp
qed

text \<open>
  C4: \<open>Remove(t)\<close> erases every occurrence of \<open>t\<close> from the vector and then calls
  \<open>Reschedule\<close>. For callbacks that leave the vector alone (as \<open>Timer::OnExpire\<close>
  does), \<open>t\<close> is not a member when \<open>Remove(t)\<close> has returned, however often it had been
  added. \<open>Remove\<close> of a timer that is not a member is \<open>Reschedule\<close> and nothing else, so
  it raises no error of its own. A second \<open>Remove(t)\<close> right after the first (the clock
  reads the same) returns and leaves the set, the store, the programmed interval timer and
  the handler as the first call left them, and dispatches nothing.
\<close>

theorem Timers_Remove_removes_every_reference:
  assumes keeps: "keeps_set OnExpire"
  shows "(\<forall>v. spTimers w = Some v \<longrightarrow>
       Timers_Remove OnExpire t w =
         Reschedule OnExpire (w\<lparr>spTimers := Some (filter (\<lambda>p. p \<noteq> t) v)\<rparr>)) \<and>
    (\<forall>w'. Timers_Remove OnExpire t w = Some (Returns w') \<longrightarrow> t \<notin> set (members w')) \<and>
    (\<forall>v. spTimers w = Some v \<and> t \<notin> set v \<longrightarrow>
       Timers_Remove OnExpire t w = Reschedule OnExpire w) \<and>
    (\<forall>w1. Timers_Remove OnExpire t w = Some (Returns w1) \<and> next_reading w1 = next_reading w \<longrightarrow>
       (\<exists>w2 tr. Timers_Remove OnExpire t w1 = Some (Returns w2) \<and>
          spTimers w2 = spTimers w1 \<and> heap w2 = heap w1 \<and> it_value w2 = it_value w1 \<and>
          sigalrm w2 = sigalrm w1 \<and> trace w2 = trace w1 @ tr \<and>
          (\<forall>x. TimerFired x \<notin> set tr \<and> TimerHasExpired x \<notin> set tr)))"
proof (intro conjI allI impI)
  fix v assume "spTimers w = Some v"
  then show "Timers_Remove OnExpire t w =
         Reschedule OnExpire (w\<lparr>spTimers := Some (filter (\<lambda>p. p \<noteq> t) v)\<rparr>)"
    by (rule Timers_Remove_unfold)
next
  fix w' assume r: "Timers_Remove OnExpire t w = Some (Returns w')"
  then obtain v where sp: "spTimers w = Some v"
    by (auto simp: Timers_Remove_def split: option.splits)
  from r have "Reschedule OnExpire (w\<lparr>spTimers := Some (filter (\<lambda>p. p \<noteq> t) v)\<rparr>) = Some (Returns w')"
    by (simp add: Timers_Remove_unfold [OF sp])
  from Reschedule_subset [OF this keeps] show "t \<notin> set (members w')"
    by (auto simp: members_def)
next
  fix v assume a: "spTimers w = Some v \<and> t \<notin> set v"
  then show "Timers_Remove OnExpire t w = Reschedule OnExpire w"
    using Timers_Remove_absent by blast
next
  fix w1 assume a: "Timers_Remove OnExpire t w = Some (Returns w1) \<and> next_reading w1 = next_reading w"
  then obtain v where sp: "spTimers w = Some v"
    by (auto simp: Timers_Remove_def split: option.splits)
  let ?w = "w\<lparr>spTimers := Some (filter (\<lambda>p. p \<noteq> t) v)\<rparr>"
  from a have r: "Reschedule OnExpire ?w = Some (Returns w1)"
    by (simp add: Timers_Remove_unfold [OF sp])
  from a have same: "next_reading w1 = next_reading ?w"
    by (simp add: next_reading_def)
  from Reschedule_subset [OF r keeps] have t: "t \<notin> set (members w1)"
    by (auto simp: members_def)
  from Reschedule_Returns_spTimers [OF r] obtain v1 where sp1: "spTimers w1 = Some v1"
    by blast
  with t have "t \<notin> set v1" by (simp add: members_def)
  with sp1 have eq: "Timers_Remove OnExpire t w1 = Reschedule OnExpire w1"
    by (rule Timers_Remove_absent)
  from Reschedule_again [OF r same] obtain tr where
    "Reschedule OnExpire w1 = Some (Returns (TRACE tr
       (w1\<lparr>sRescheduleNeeded := False, clock_reads := Suc (clock_reads w1)\<rparr>)))"
    and "\<forall>x. TimerFired x \<notin> set tr \<and> TimerHasExpired x \<notin> set tr"
    by blast
  with eq show "\<exists>w2 tr. Timers_Remove OnExpire t w1 = Some (Returns w2) \<and>
          spTimers w2 = spTimers w1 \<and> heap w2 = heap w1 \<and> it_value w2 = it_value w1 \<and>
          sigalrm w2 = sigalrm w1 \<and> trace w2 = trace w1 @ tr \<and>
          (\<forall>x. TimerFired x \<notin> set tr \<and> TimerHasExpired x \<notin> set tr)"
    by (intro exI [of _ "TRACE tr
       (w1\<lparr>sRescheduleNeeded := False, clock_reads := Suc (clock_reads w1)\<rparr>)"] exI [of _ tr]) simp
qed

lemma dup_world_remove:
  "\<exists>w1. Timers_Remove Timer_OnExpire 1 dup_world = Some (Returns w1) \<and> members w1 = [2] \<and>
     clock w1 = (\<lambda>n. 1000000) \<and> it_value w1 = \<lparr>tv_sec = 2, tv_usec = 500000\<rparr>"
  by (simp add: run_defs dup_world_def)

theorem Timers_Remove_removes_every_reference_witness:
  "keeps_set Timer_OnExpire \<and>
   (\<exists>w1. Timers_Remove Timer_OnExpire 1 dup_world = Some (Returns w1) \<and> members w1 = [2] \<and>
      1 \<notin> set (members w1) \<and>
      (\<exists>w2. Timers_Remove Timer_OnExpire 1 w1 = Some (Returns w2) \<and>
         spTimers w2 = spTimers w1 \<and> heap w2 = heap w1 \<and> it_value w2 = it_value w1)) \<and>
   Timers_Remove Timer_OnExpire 7 dup_world = Reschedule Timer_OnExpire dup_world"
proof -
  note th = Timers_Remove_removes_every_reference [OF keeps_set_Timer_OnExpire]
  from dup_world_remove obtain w1 where
    r: "Timers_Remove Timer_OnExpire 1 dup_world = Some (Returns w1)"
    and m: "members w1 = [2]" and c: "clock w1 = (\<lambda>n. 1000000)"
    by blast
  have same: "next_reading w1 = next_reading dup_world"
    by (simp add: next_reading_def c dup_world_def base_world_def)
  from th [where t = 1 and w = dup_world] r have n: "1 \<notin> set (members w1)" by blast
  from th [where t = 1 and w = dup_world] r same obtain w2 where
    "Timers_Remove Timer_OnExpire 1 w1 = Some (Returns w2)"
    "spTimers w2 = spTimers w1" "heap w2 = heap w1" "it_value w2 = it_value w1"
    by blast
  moreover have sp: "spTimers dup_world = Some [1, 2, 1] \<and> 7 \<notin> set [1, 2, 1::nat]"
    by (simp add: dup_world_def)
  with th [where t = 7 and w = dup_world]
  have "Timers_Remove Timer_OnExpire 7 dup_world = Reschedule Timer_OnExpire dup_world"
    by blast
  ultimately show ?thesis
    using r m n keeps_set_Timer_OnExpire by blast
qed

text \<open>
  C6 (as amended): a Timer constructed with timeout 0 is inert: \<open>expires_at\<close> is the
  sentinel 0, \<open>expired\<close> is false, and the set and the interval timer are as before (no
  \<open>Add\<close>, no reschedule); a Timer that is not a member is never dispatched by
  \<open>Reschedule\<close>. A Timer constructed with a timeout \<open>T > 0\<close> gets \<open>expires_at\<close> = the
  clock reading plus \<open>T * 10^6\<close> in 64-bit arithmetic (modulo \<open>2^64\<close>) and is passed to
  \<open>Timers::Add\<close>, which appends it to the set and runs \<open>Reschedule\<close>. With
  \<open>Timer::OnExpire\<close> as callback the constructor returns, and the Timer is then a member
  with \<open>expired\<close> false exactly when its deadline is still ahead at the reading that
  \<open>Reschedule\<close> takes (the signed 64-bit difference of the two is positive), as it is
  whenever \<open>T * 10^6 < 2^63\<close> and fewer than \<open>T * 10^6\<close> microseconds lie between the two
  readings. Otherwise the Timer has been dispatched inside the constructor: \<open>OnExpire\<close>
  has run, \<open>expired\<close> is true, and the Timer is not a member.
\<close>

theorem Timer_ctor_spec:
  "(\<exists>w'. Timer_ctor OnExpire this 0 w = Some (Returns w') \<and>
      heap w' this = Some \<lparr>mExpires = 0, mExpired = False\<rparr> \<and>
      spTimers w' = spTimers w \<and> it_value w' = it_value w \<and>
      (\<forall>p. p \<noteq> this \<longrightarrow> heap w' p = heap w p)) \<and>
   (T \<noteq> 0 \<longrightarrow>
      Timer_ctor OnExpire this T w =
        Timers_Add OnExpire this (TRACE [TimerInitialised this T (next_reading w + T * 1000000)]
          (w\<lparr>clock_reads := Suc (clock_reads w),
              heap := (heap w)(this \<mapsto>
                \<lparr>mExpires = next_reading w + T * 1000000, mExpired = False\<rparr>)\<rparr>))) \<and>
   uint (next_reading w + T * 1000000) = (uint (next_reading w) + uint T * 1000000) mod 2 ^ 64 \<and>
   (T \<noteq> 0 \<and> spTimers w = Some v \<and> (\<forall>p\<in>set v. heap w p \<noteq> None) \<and>
    (\<forall>tv. \<not> setitimer_fails w tv) \<longrightarrow>
      (\<exists>w' tr. Timer_ctor Timer_OnExpire this T w = Some (Returns w') \<and>
         trace w' = trace w @ tr \<and>
         map_option mExpires (heap w' this) = Some (next_reading w + T * 1000000) \<and>
         (0 < sint (next_reading w + T * 1000000 - clock w (Suc (clock_reads w))) \<longrightarrow>
            this \<in> set (members w') \<and> TimerFired this \<notin> set tr \<and>
            heap w' this = Some \<lparr>mExpires = next_reading w + T * 1000000, mExpired = False\<rparr>) \<and>
         (sint (next_reading w + T * 1000000 - clock w (Suc (clock_reads w))) \<le> 0 \<longrightarrow>
            this \<notin> set (members w') \<and> TimerFired this \<in> set tr \<and>
            heap w' this = Some \<lparr>mExpires = next_reading w + T * 1000000, mExpired = True\<rparr>) \<and>
         (uint T * 1000000 < 2 ^ 63 \<and>
          uint (clock w (Suc (clock_reads w)) - next_reading w) < uint T * 1000000 \<longrightarrow>
            this \<in> set (members w')))) \<and>
   (\<forall>(u::world) vu. spTimers u = Some vu \<and> (\<forall>p\<in>set vu. heap u p \<noteq> None) \<and>
      (\<forall>tv. \<not> setitimer_fails u tv) \<and> this \<notin> set vu \<longrightarrow>
      (\<exists>u' tr. Reschedule Timer_OnExpire u = Some (Returns u') \<and> trace u' = trace u @ tr \<and>
         TimerFired this \<notin> set tr \<and> TimerHasExpired this \<notin> set tr \<and>
         this \<notin> set (members u') \<and> heap u' this = heap u this))"
proof (intro conjI impI allI)
  show "\<exists>w'. Timer_ctor OnExpire this 0 w = Some (Returns w') \<and>
      heap w' this = Some \<lparr>mExpires = 0, mExpired = False\<rparr> \<and>
      spTimers w' = spTimers w \<and> it_value w' = it_value w \<and>
      (\<forall>p. p \<noteq> this \<longrightarrow> heap w' p = heap w p)"
    by (simp add: Timer_ctor_zero)
next
  assume "T \<noteq> 0"
  then show "Timer_ctor OnExpire this T w =
        Timers_Add OnExpire this (TRACE [TimerInitialised this T (next_reading w + T * 1000000)]
          (w\<lparr>clock_reads := Suc (clock_reads w),
              heap := (heap w)(this \<mapsto>
                \<lparr>mExpires = next_reading w + T * 1000000, mExpired = False\<rparr>)\<rparr>))"
    by (rule Timer_ctor_nonzero)
next
  show "uint (next_reading w + T * 1000000) = (uint (next_reading w) + uint T * 1000000) mod 2 ^ 64"
    by (simp add: uint_word_ariths mod_simps)
next
  let ?D = "next_reading w + T * 1000000"
  let ?obj = "\<lparr>mExpires = ?D, mExpired = False\<rparr>"
  let ?h = "(heap w)(this \<mapsto> ?obj)"
  let ?w = "TRACE [TimerInitialised this T ?D]
          (w\<lparr>clock_reads := Suc (clock_reads w), heap := ?h\<rparr>)"
  let ?now2 = "clock w (Suc (clock_reads w))"
  assume a: "T \<noteq> 0 \<and> spTimers w = Some v \<and> (\<forall>p\<in>set v. heap w p \<noteq> None) \<and>
    (\<forall>tv. \<not> setitimer_fails w tv)"
  have 1: "spTimers ?w = Some v" using a by simp
  have 2: "\<forall>p\<in>set (v @ [this]). heap ?w p \<noteq> None" using a by simp
  have 3: "\<forall>tv. \<not> setitimer_fails ?w tv" using a by simp
  have n: "next_reading ?w = ?now2" by (simp add: next_reading_def)
  from Timers_Add_default [OF 1 2 3] obtain w' tr where
    add: "Timers_Add Timer_OnExpire this ?w = Some (Returns w')"
    and sp': "spTimers w' = Some (filter (\<lambda>p. \<not> expired_at ?now2 ?h p) (v @ [this]))"
    and hp': "heap w' = fire_all ?now2 ?h (v @ [this])"
    and tr': "trace w' = trace ?w @ tr"
    and f': "\<forall>x. TimerFired x \<in> set tr \<longleftrightarrow> x \<in> set (v @ [this]) \<and> expired_at ?now2 ?h x"
    unfolding n by auto
  let ?tr = "[TimerInitialised this T ?D] @ tr"
  have res: "Timer_ctor Timer_OnExpire this T w = Some (Returns w')"
    using a add by (simp add: Timer_ctor_nonzero)
  have t0: "trace w' = trace w @ ?tr" using tr' by simp
  have fi: "TimerFired this \<in> set ?tr \<longleftrightarrow> expired_at ?now2 ?h this"
    using f' by simp
  have ex: "expired_at ?now2 ?h this \<longleftrightarrow> sint (?D - ?now2) \<le> 0"
    by (simp add: expired_at_def)
  have c1: "map_option mExpires (heap w' this) = Some ?D"
    unfolding hp' by (simp add: fire_all_def)
  have c2: "this \<in> set (members w') \<and> TimerFired this \<notin> set ?tr \<and> heap w' this = Some ?obj"
    if "0 < sint (?D - ?now2)"
  proof -
    from that have "\<not> expired_at ?now2 ?h this" by (simp add: ex)
    then show ?thesis using sp' hp' fi by (simp add: members_def fire_all_not_expired)
  qed
  have c3: "this \<notin> set (members w') \<and> TimerFired this \<in> set ?tr \<and>
      heap w' this = Some \<lparr>mExpires = ?D, mExpired = True\<rparr>"
    if "sint (?D - ?now2) \<le> 0"
  proof -
    from that have "expired_at ?now2 ?h this" by (simp add: ex)
    then show ?thesis using sp' hp' fi by (simp add: members_def fire_all_def)
  qed
  have c4: "this \<in> set (members w')"
    if "uint T * 1000000 < 2 ^ 63 \<and> uint (?now2 - next_reading w) < uint T * 1000000"
    using that c2 deadline_ahead [of T ?now2 "next_reading w"] by blast
  from res t0 c1 c2 c3 c4 show "\<exists>w' tr. Timer_ctor Timer_OnExpire this T w = Some (Returns w') \<and>
         trace w' = trace w @ tr \<and>
         map_option mExpires (heap w' this) = Some ?D \<and>
         (0 < sint (?D - ?now2) \<longrightarrow>
            this \<in> set (members w') \<and> TimerFired this \<notin> set tr \<and> heap w' this = Some ?obj) \<and>
         (sint (?D - ?now2) \<le> 0 \<longrightarrow>
            this \<notin> set (members w') \<and> TimerFired this \<in> set tr \<and>
            heap w' this = Some \<lparr>mExpires = ?D, mExpired = True\<rparr>) \<and>
         (uint T * 1000000 < 2 ^ 63 \<and> uint (?now2 - next_reading w) < uint T * 1000000 \<longrightarrow>
            this \<in> set (members w'))"
    by (intro exI [of _ w'] exI [of _ ?tr]) blast
next
  fix u :: world and vu
  assume "spTimers u = Some vu \<and> (\<forall>p\<in>set vu. heap u p \<noteq> None) \<and>
      (\<forall>tv. \<not> setitimer_fails u tv) \<and> this \<notin> set vu"
  then show "\<exists>u' tr. Reschedule Timer_OnExpire u = Some (Returns u') \<and> trace u' = trace u @ tr \<and>
         TimerFired this \<notin> set tr \<and> TimerHasExpired this \<notin> set tr \<and>
         this \<notin> set (members u') \<and> heap u' this = heap u this"
    using not_member_never_fires by blast
qed

lemma ctor_runs:
  "\<exists>w'. Timer_ctor Timer_OnExpire 1 2 base_world = Some (Returns w') \<and> members w' = [1] \<and>
     it_value w' = \<lparr>tv_sec = 2, tv_usec = 0\<rparr>"
  by (simp add: run_defs)

lemma big_T_run:
  "Timer_ctor Timer_OnExpire 1 9223372036855 base_world = Some (Returns big_T_after)"
  by (simp add: run_defs big_T_after_def fun_eq_iff)

lemma jump_clock_run:
  "Timer_ctor Timer_OnExpire 1 2 jump_clock = Some (Returns jump_clock_after)"
  by (simp add: run_defs jump_clock_def jump_clock_after_def fun_eq_iff)

text \<open>
  The claim as stated fails: for \<open>T = 9223372036855\<close>, where \<open>T * 10^6\<close> is not below
  \<open>2^63\<close>, with a clock that stands still, and for \<open>T = 2\<close> with a clock that moves on by
  four seconds between the two readings, the constructor returns with the Timer
  dispatched and not in the set.
\<close>

theorem constructed_timer_dispatched_at_once:
  "Timer_ctor Timer_OnExpire 1 9223372036855 base_world = Some (Returns big_T_after) \<and>
   (9223372036855 :: 64 word) \<noteq> 0 \<and>
   1 \<notin> set (members big_T_after) \<and>
   heap big_T_after 1 = Some \<lparr>mExpires = 9223372036856000000, mExpired = True\<rparr> \<and>
   TimerFired 1 \<in> set (trace big_T_after) \<and>
   Timer_ctor Timer_OnExpire 1 2 jump_clock = Some (Returns jump_clock_after) \<and>
   1 \<notin> set (members jump_clock_after) \<and>
   heap jump_clock_after 1 = Some \<lparr>mExpires = 3000000, mExpired = True\<rparr> \<and>
   TimerFired 1 \<in> set (trace jump_clock_after)"
  using big_T_run jump_clock_run
  by (simp add: big_T_after_def jump_clock_after_def jump_clock_def base_world_def members_def)

theorem Timer_ctor_spec_witness:
  "(\<exists>w'. Timer_ctor Timer_OnExpire 1 0 base_world = Some (Returns w') \<and>
      heap w' 1 = Some \<lparr>mExpires = 0, mExpired = False\<rparr> \<and> members w' = []) \<and>
   (\<exists>w'. Timer_ctor Timer_OnExpire 1 2 base_world = Some (Returns w') \<and>
      heap w' 1 = Some \<lparr>mExpires = 3000000, mExpired = False\<rparr> \<and> 1 \<in> set (members w')) \<and>
   (\<exists>w'. Timer_ctor Timer_OnExpire 1 2 jump_clock = Some (Returns w') \<and>
      heap w' 1 = Some \<lparr>mExpires = 3000000, mExpired = True\<rparr> \<and> 1 \<notin> set (members w') \<and>
      TimerFired 1 \<in> set (trace w'))"
proof -
  note th = Timer_ctor_spec [of Timer_OnExpire 1 base_world 2 "[]"]
  have sp: "spTimers base_world = Some []" by (simp add: base_world_def)
  have os: "\<forall>tv. \<not> setitimer_fails base_world tv" by (simp add: base_world_def)
  have now: "next_reading base_world = 1000000" "clock base_world (Suc (clock_reads base_world)) = 1000000"
    by (simp_all add: next_reading_def base_world_def)
  from th obtain w0 where
    "Timer_ctor Timer_OnExpire 1 0 base_world = Some (Returns w0)"
    "heap w0 1 = Some \<lparr>mExpires = 0, mExpired = False\<rparr>" "spTimers w0 = spTimers base_world"
    by blast
  then have first: "\<exists>w'. Timer_ctor Timer_OnExpire 1 0 base_world = Some (Returns w') \<and>
      heap w' 1 = Some \<lparr>mExpires = 0, mExpired = False\<rparr> \<and> members w' = []"
    using sp by (auto simp: members_def)
  have nz: "(2::64 word) \<noteq> 0" by simp
  have pre: "(2::64 word) \<noteq> 0 \<and> spTimers base_world = Some [] \<and>
      (\<forall>p\<in>set []. heap base_world p \<noteq> None) \<and> (\<forall>tv. \<not> setitimer_fails base_world tv)"
    using sp os by simp
  from th pre obtain w' where
    r: "Timer_ctor Timer_OnExpire 1 2 base_world = Some (Returns w')"
    and imp: "0 < sint (next_reading base_world + 2 * 1000000 -
                    clock base_world (Suc (clock_reads base_world))) \<longrightarrow>
            1 \<in> set (members w') \<and>
            heap w' 1 = Some \<lparr>mExpires = next_reading base_world + 2 * 1000000, mExpired = False\<rparr>"
    by blast
  from imp have "1 \<in> set (members w') \<and> heap w' 1 = Some \<lparr>mExpires = 3000000, mExpired = False\<rparr>"
    unfolding now by simp
  with r have second: "\<exists>w'. Timer_ctor Timer_OnExpire 1 2 base_world = Some (Returns w') \<and>
      heap w' 1 = Some \<lparr>mExpires = 3000000, mExpired = False\<rparr> \<and> 1 \<in> set (members w')"
    by blast
  note th2 = Timer_ctor_spec [of Timer_OnExpire 1 jump_clock 2 "[]"]
  have pre2: "(2::64 word) \<noteq> 0 \<and> spTimers jump_clock = Some [] \<and>
      (\<forall>p\<in>set []. heap jump_clock p \<noteq> None) \<and> (\<forall>tv. \<not> setitimer_fails jump_clock tv)"
    by (simp add: jump_clock_def base_world_def)
  have now2: "next_reading jump_clock = 1000000" "clock jump_clock (Suc (clock_reads jump_clock)) = 5000000"
    "trace jump_clock = []"
    by (simp_all add: next_reading_def jump_clock_def base_world_def)
  from th2 pre2 have "\<exists>w' tr. Timer_ctor Timer_OnExpire 1 2 jump_clock = Some (Returns w') \<and>
         trace w' = trace jump_clock @ tr \<and>
         (sint (next_reading jump_clock + 2 * 1000000 - clock jump_clock (Suc (clock_reads jump_clock))) \<le> 0 \<longrightarrow>
            1 \<notin> set (members w') \<and> TimerFired 1 \<in> set tr \<and>
            heap w' 1 = Some \<lparr>mExpires = next_reading jump_clock + 2 * 1000000, mExpired = True\<rparr>)"
    by blast
  then have third: "\<exists>w'. Timer_ctor Timer_OnExpire 1 2 jump_clock = Some (Returns w') \<and>
      heap w' 1 = Some \<lparr>mExpires = 3000000, mExpired = True\<rparr> \<and> 1 \<notin> set (members w') \<and>
      TimerFired 1 \<in> set (trace w')"
    unfolding now2 by auto
  from first second third show ?thesis by (intro conjI)
qed

text \<open>
  C7 (as amended): an assignment \<open>t = other\<close> with \<open>Timer::OnExpire\<close> as callback. First
  \<open>t\<close> leaves the set: \<open>Timers::Remove\<close> erases all its back-references (its prior
  deadline is cancelled and \<open>t\<close> is not dispatched) and runs \<open>Reschedule\<close>, which
  dispatches every other member that is overdue at that reading, \<open>other\<close> included. Then
  \<open>t\<close> adopts \<open>other\<close>'s \<open>expires_at\<close> and \<open>expired\<close> as they are after that step, and
  is passed to \<open>Timers::Add\<close> iff they are neither expired nor inert; the \<open>Reschedule\<close>
  that \<open>Add\<close> runs takes a second reading, and \<open>t\<close> is a member on return (once) iff it
  was passed to \<open>Add\<close> and its deadline is ahead at that second reading. Provided
  \<open>other\<close>, if it is a member other than \<open>t\<close>, is not overdue at the first reading, and
  the adopted deadline, if \<open>other\<close> is neither expired nor inert, is not overdue at the
  second: \<open>t\<close> has \<open>other\<close>'s fields, \<open>t\<close> is a member iff \<open>other\<close> is neither expired
  nor inert, \<open>other\<close>'s fields and membership are unchanged, and neither is dispatched. If
  \<open>other\<close> is a member other than \<open>t\<close> that is overdue at the first reading, the
  assignment itself dispatches \<open>other\<close>: \<open>other\<close> and \<open>t\<close> have \<open>expired\<close> true and
  neither is a member.
\<close>

theorem Timer_assign_spec:
  assumes sp: "spTimers w = Some v" and live: "\<forall>p\<in>set v. heap w p \<noteq> None"
    and dst: "heap w this = Some dst" and src: "heap w other = Some src"
    and os: "\<forall>tv. \<not> setitimer_fails w tv"
  shows "\<exists>w1 src1 w' tr.
     Timers_Remove Timer_OnExpire this (TRACE [copy_trace this other src] w) = Some (Returns w1) \<and>
     this \<notin> set (members w1) \<and>
     (\<forall>p. p \<noteq> this \<longrightarrow>
        (p \<in> set (members w1) \<longleftrightarrow> p \<in> set v \<and> \<not> expired_at (next_reading w) (heap w) p)) \<and>
     heap w1 this = Some dst \<and> heap w1 other = Some src1 \<and>
     src1 = (if other \<in> set v \<and> other \<noteq> this \<and> due_at (next_reading w) src
             then fired src else src) \<and>
     Timer_assign Timer_OnExpire this other w =
       (if eligible src1
        then Timers_Add Timer_OnExpire this (w1\<lparr>heap := (heap w1)(this \<mapsto> src1)\<rparr>)
        else Some (Returns (w1\<lparr>heap := (heap w1)(this \<mapsto> src1)\<rparr>))) \<and>
     Timer_assign Timer_OnExpire this other w = Some (Returns w') \<and>
     trace w' = trace w @ tr \<and>
     (\<forall>p. p \<noteq> this \<and> p \<in> set v \<and> expired_at (next_reading w) (heap w) p \<longrightarrow>
        TimerFired p \<in> set tr) \<and>
     heap w' this =
       Some (if eligible src1 \<and> due_at (clock w (Suc (clock_reads w))) src1
             then fired src1 else src1) \<and>
     (this \<in> set (members w') \<longleftrightarrow>
        eligible src1 \<and> \<not> due_at (clock w (Suc (clock_reads w))) src1) \<and>
     count_list (members w') this \<le> 1 \<and>
     (TimerFired this \<in> set tr \<longleftrightarrow>
        eligible src1 \<and> due_at (clock w (Suc (clock_reads w))) src1) \<and>
     (other \<noteq> this \<longrightarrow>
        heap w' other =
          Some (if other \<in> set v \<and> eligible src1 \<and> due_at (clock w (Suc (clock_reads w))) src1
                then fired src1 else src1) \<and>
        (other \<in> set (members w') \<longleftrightarrow>
           other \<in> set v \<and> \<not> due_at (next_reading w) src \<and>
           \<not> (eligible src1 \<and> due_at (clock w (Suc (clock_reads w))) src1)) \<and>
        (TimerFired other \<in> set tr \<longleftrightarrow>
           other \<in> set v \<and> (due_at (next_reading w) src \<or>
             eligible src1 \<and> due_at (clock w (Suc (clock_reads w))) src1))) \<and>
     (\<not> (other \<in> set v \<and> other \<noteq> this \<and> due_at (next_reading w) src) \<and>
      (eligible src \<longrightarrow> \<not> due_at (clock w (Suc (clock_reads w))) src) \<longrightarrow>
        heap w' this = Some src \<and> heap w' other = Some src \<and>
        (this \<in> set (members w') \<longleftrightarrow> eligible src) \<and>
        (other \<noteq> this \<longrightarrow> (other \<in> set (members w') \<longleftrightarrow> other \<in> set v)) \<and>
        TimerFired this \<notin> set tr \<and> TimerFired other \<notin> set tr) \<and>
     (other \<in> set v \<and> other \<noteq> this \<and> due_at (next_reading w) src \<longrightarrow>
        TimerFired other \<in> set tr \<and> heap w' other = Some (fired src) \<and>
        other \<notin> set (members w') \<and>
        heap w' this = Some (fired src) \<and> this \<notin> set (members w') \<and>
        TimerFired this \<notin> set tr)"
proof -
  let ?now1 = "next_reading w"
  let ?now2 = "clock w (Suc (clock_reads w))"
  from Timer_assign_default [OF sp live dst src os] obtain w1 src1 w' tr where
    a: "Timers_Remove Timer_OnExpire this (TRACE [copy_trace this other src] w) = Some (Returns w1)"
      "this \<notin> set (members w1)"
      "\<forall>p. p \<noteq> this \<longrightarrow>
        (p \<in> set (members w1) \<longleftrightarrow> p \<in> set v \<and> \<not> expired_at ?now1 (heap w) p)"
      "heap w1 this = Some dst" "heap w1 other = Some src1"
    and s1: "src1 = (if other \<in> set v \<and> other \<noteq> this \<and> due_at ?now1 src then fired src else src)"
    and b: "Timer_assign Timer_OnExpire this other w =
       (if eligible src1
        then Timers_Add Timer_OnExpire this (w1\<lparr>heap := (heap w1)(this \<mapsto> src1)\<rparr>)
        else Some (Returns (w1\<lparr>heap := (heap w1)(this \<mapsto> src1)\<rparr>)))"
      "Timer_assign Timer_OnExpire this other w = Some (Returns w')"
      "trace w' = trace w @ tr"
      "\<forall>p. p \<noteq> this \<and> p \<in> set v \<and> expired_at ?now1 (heap w) p \<longrightarrow> TimerFired p \<in> set tr"
    and g1: "heap w' this = Some (if eligible src1 \<and> due_at ?now2 src1 then fired src1 else src1)"
    and g2: "this \<in> set (members w') \<longleftrightarrow> eligible src1 \<and> \<not> due_at ?now2 src1"
    and g2c: "count_list (members w') this \<le> 1"
    and g3: "TimerFired this \<in> set tr \<longleftrightarrow> eligible src1 \<and> due_at ?now2 src1"
    and g456: "other \<noteq> this \<longrightarrow>
        heap w' other =
          Some (if other \<in> set v \<and> eligible src1 \<and> due_at ?now2 src1 then fired src1 else src1) \<and>
        (other \<in> set (members w') \<longleftrightarrow>
           other \<in> set v \<and> \<not> due_at ?now1 src \<and> \<not> (eligible src1 \<and> due_at ?now2 src1)) \<and>
        (TimerFired other \<in> set tr \<longleftrightarrow>
           other \<in> set v \<and> (due_at ?now1 src \<or> eligible src1 \<and> due_at ?now2 src1))"
    by blast
  have c1: "heap w' this = Some src \<and> heap w' other = Some src \<and>
        (this \<in> set (members w') \<longleftrightarrow> eligible src) \<and>
        (other \<noteq> this \<longrightarrow> (other \<in> set (members w') \<longleftrightarrow> other \<in> set v)) \<and>
        TimerFired this \<notin> set tr \<and> TimerFired other \<notin> set tr"
    if h: "\<not> (other \<in> set v \<and> other \<noteq> this \<and> due_at ?now1 src) \<and>
      (eligible src \<longrightarrow> \<not> due_at ?now2 src)"
  proof -
    from h have "(other \<in> set v \<and> other \<noteq> this \<and> due_at ?now1 src) = False" by blast
    with s1 have e: "src1 = src" by (simp only: if_False)
    from h have n2: "\<not> (eligible src \<and> due_at ?now2 src)" by blast
    have t: "heap w' this = Some src" using g1 n2 unfolding e by simp
    have tm: "this \<in> set (members w') \<longleftrightarrow> eligible src" using g2 h unfolding e by blast
    have tf: "TimerFired this \<notin> set tr" using g3 n2 unfolding e by simp
    show ?thesis
    proof (cases "other = this")
      case True
      with t tm tf show ?thesis by simp
    next
      case False
      with g456 have "heap w' other = Some src"
        and "other \<in> set (members w') \<longleftrightarrow> other \<in> set v \<and> \<not> due_at ?now1 src"
        and "TimerFired other \<in> set tr \<longleftrightarrow> other \<in> set v \<and> due_at ?now1 src"
        using n2 unfolding e by simp_all
      with h False t tm tf show ?thesis by blast
    qed
  qed
  have c2: "TimerFired other \<in> set tr \<and> heap w' other = Some (fired src) \<and>
        other \<notin> set (members w') \<and>
        heap w' this = Some (fired src) \<and> this \<notin> set (members w') \<and>
        TimerFired this \<notin> set tr"
    if h: "other \<in> set v \<and> other \<noteq> this \<and> due_at ?now1 src"
  proof -
    from h have "(other \<in> set v \<and> other \<noteq> this \<and> due_at ?now1 src) = True" by simp
    with s1 have e: "src1 = fired src" by (simp only: if_True)
    from g1 g2 g3 g456 h show ?thesis unfolding e by simp
  qed
  from a s1 b g1 g2 g2c g3 g456 c1 c2 show ?thesis
    by (intro exI [of _ w1] exI [of _ src1] exI [of _ w'] exI [of _ tr]) blast
qed

lemma overdue_assign_run:
  "Timer_assign Timer_OnExpire 1 2 overdue_world = Some (Returns overdue_assigned)"
  by (simp add: run_defs overdue_world_def overdue_assigned_def fun_eq_iff)

text \<open>
  The claim as stated fails when \<open>other\<close> is overdue and not yet dispatched: the
  assignment dispatches \<open>other\<close>, so its \<open>expired\<close> flag and its membership change, and
  \<open>t\<close>, which adopts the flag, does not join the set and never fires.
\<close>

theorem assignment_from_overdue_source:
  "heap overdue_world 2 = Some \<lparr>mExpires = 999999, mExpired = False\<rparr> \<and>
   2 \<in> set (members overdue_world) \<and>
   Timer_assign Timer_OnExpire 1 2 overdue_world = Some (Returns overdue_assigned) \<and>
   heap overdue_assigned 2 = Some \<lparr>mExpires = 999999, mExpired = True\<rparr> \<and>
   2 \<notin> set (members overdue_assigned) \<and>
   1 \<notin> set (members overdue_assigned) \<and>
   TimerFired 1 \<notin> set (trace overdue_assigned)"
  using overdue_assign_run
  by (simp add: overdue_world_def overdue_assigned_def members_def)

theorem Timer_assign_spec_witness:
  "(\<exists>w'. Timer_assign Timer_OnExpire 1 2 two_timers = Some (Returns w') \<and>
     heap w' 1 = Some \<lparr>mExpires = 3500000, mExpired = False\<rparr> \<and>
     heap w' 2 = Some \<lparr>mExpires = 3500000, mExpired = False\<rparr> \<and>
     1 \<in> set (members w') \<and> 2 \<in> set (members w') \<and> count_list (members w') 1 \<le> 1) \<and>
   (\<exists>w'. Timer_assign Timer_OnExpire 1 2 overdue_world = Some (Returns w') \<and>
     heap w' 1 = Some \<lparr>mExpires = 999999, mExpired = True\<rparr> \<and>
     heap w' 2 = Some \<lparr>mExpires = 999999, mExpired = True\<rparr> \<and>
     1 \<notin> set (members w') \<and> 2 \<notin> set (members w') \<and> TimerFired 2 \<in> set (trace w'))"
proof -
  have sp: "spTimers two_timers = Some [1, 2]" by (simp add: two_timers_def)
  have live: "\<forall>p\<in>set [1, 2]. heap two_timers p \<noteq> None" by (simp add: two_timers_def)
  have dst: "heap two_timers 1 = Some \<lparr>mExpires = 1000001, mExpired = False\<rparr>"
    by (simp add: two_timers_def)
  have src: "heap two_timers 2 = Some \<lparr>mExpires = 3500000, mExpired = False\<rparr>"
    by (simp add: two_timers_def)
  have os: "\<forall>tv. \<not> setitimer_fails two_timers tv" by (simp add: two_timers_def base_world_def)
  have h: "\<not> (2 \<in> set [1, 2::nat] \<and> (2::nat) \<noteq> 1 \<and>
        due_at (next_reading two_timers) \<lparr>mExpires = 3500000, mExpired = False\<rparr>) \<and>
      (eligible \<lparr>mExpires = 3500000, mExpired = False\<rparr> \<longrightarrow>
       \<not> due_at (clock two_timers (Suc (clock_reads two_timers)))
           \<lparr>mExpires = 3500000, mExpired = False\<rparr>)"
    by (simp add: next_reading_def two_timers_def base_world_def due_at_def)
  from Timer_assign_spec [OF sp live dst src os] h
  have first: "\<exists>w'. Timer_assign Timer_OnExpire 1 2 two_timers = Some (Returns w') \<and>
     heap w' 1 = Some \<lparr>mExpires = 3500000, mExpired = False\<rparr> \<and>
     heap w' 2 = Some \<lparr>mExpires = 3500000, mExpired = False\<rparr> \<and>
     1 \<in> set (members w') \<and> 2 \<in> set (members w') \<and> count_list (members w') 1 \<le> 1"
    by (auto simp: eligible_def)
  have sp2: "spTimers overdue_world = Some [1, 2]" by (simp add: overdue_world_def)
  have live2: "\<forall>p\<in>set [1, 2]. heap overdue_world p \<noteq> None" by (simp add: overdue_world_def)
  have dst2: "heap overdue_world 1 = Some \<lparr>mExpires = 5000000, mExpired = False\<rparr>"
    by (simp add: overdue_world_def)
  have src2: "heap overdue_world 2 = Some \<lparr>mExpires = 999999, mExpired = False\<rparr>"
    by (simp add: overdue_world_def)
  have os2: "\<forall>tv. \<not> setitimer_fails overdue_world tv"
    by (simp add: overdue_world_def base_world_def)
  have h2: "2 \<in> set [1, 2::nat] \<and> (2::nat) \<noteq> 1 \<and>
        due_at (next_reading overdue_world) \<lparr>mExpires = 999999, mExpired = False\<rparr>"
    by (simp add: next_reading_def overdue_world_def base_world_def due_at_def)
  have tr0: "trace overdue_world = []" by (simp add: overdue_world_def base_world_def)
  from Timer_assign_spec [OF sp2 live2 dst2 src2 os2] h2 tr0
  have second: "\<exists>w'. Timer_assign Timer_OnExpire 1 2 overdue_world = Some (Returns w') \<and>
     heap w' 1 = Some \<lparr>mExpires = 999999, mExpired = True\<rparr> \<and>
     heap w' 2 = Some \<lparr>mExpires = 999999, mExpired = True\<rparr> \<and>
     1 \<notin> set (members w') \<and> 2 \<notin> set (members w') \<and> TimerFired 2 \<in> set (trace w')"
    by (auto simp: fired_def)
  from first second show ?thesis ..
qed

text \<open>
  C8 (as amended): copy-constructing \<open>t2\<close> from another Timer \<open>t1\<close>, with
  \<open>Timer::OnExpire\<close> as callback: \<open>t2\<close> is given \<open>t1\<close>'s \<open>expires_at\<close> and \<open>expired\<close>,
  and is passed to \<open>Timers::Add\<close> iff they are neither expired nor inert. If \<open>t1\<close> is
  expired or inert, \<open>t2\<close> has \<open>t1\<close>'s values, the set, the interval timer and \<open>t1\<close> are
  unchanged, and the clock is not read. If \<open>t1\<close> is neither, \<open>Add\<close> appends \<open>t2\<close> to the
  set and runs \<open>Reschedule\<close>. When \<open>t1\<close>'s deadline is ahead at that reading: \<open>t2\<close> is a
  member of its own (the set has one more entry for \<open>t2\<close>) with \<open>t1\<close>'s values, \<open>t1\<close>'s
  fields and membership are unchanged, neither is dispatched, and destroying \<open>t1\<close>
  removes \<open>t1\<close> only: \<open>t2\<close> is then a member with the same deadline or, if the deadline
  has passed at the reading of the \<open>Reschedule\<close> that the destructor runs, has been
  dispatched by it; and a \<open>Reschedule\<close> at or after the deadline dispatches a member
  \<open>t2\<close>. When the deadline has passed at the reading of \<open>Add\<close>'s \<open>Reschedule\<close>, \<open>t2\<close> is
  dispatched inside the copy constructor (\<open>expired\<close> true, not a member), and so is \<open>t1\<close>
  if it is a member.
\<close>

theorem Timer_copy_spec:
  assumes sp: "spTimers w = Some v" and live: "\<forall>p\<in>set v. heap w p \<noteq> None"
    and src: "heap w t1 = Some src" and ne: "t2 \<noteq> t1"
    and os: "\<forall>tv. \<not> setitimer_fails w tv"
  shows "(\<exists>w' tr.
     Timer_copy Timer_OnExpire t2 t1 w =
       (if eligible src
        then Timers_Add Timer_OnExpire t2
               (TRACE [copy_trace t2 t1 src] (w\<lparr>heap := (heap w)(t2 \<mapsto> src)\<rparr>))
        else Some (Returns (TRACE [copy_trace t2 t1 src] (w\<lparr>heap := (heap w)(t2 \<mapsto> src)\<rparr>)))) \<and>
     Timer_copy Timer_OnExpire t2 t1 w = Some (Returns w') \<and>
     trace w' = trace w @ tr \<and>
     heap w' t2 = Some (if eligible src \<and> due_at (next_reading w) src then fired src else src) \<and>
     heap w' t1 =
       Some (if eligible src \<and> t1 \<in> set v \<and> due_at (next_reading w) src then fired src else src) \<and>
     (t1 \<in> set (members w') \<longleftrightarrow>
        t1 \<in> set v \<and> \<not> (eligible src \<and> due_at (next_reading w) src)) \<and>
     (TimerFired t2 \<in> set tr \<longleftrightarrow> eligible src \<and> due_at (next_reading w) src) \<and>
     (TimerFired t1 \<in> set tr \<longleftrightarrow> eligible src \<and> t1 \<in> set v \<and> due_at (next_reading w) src) \<and>
     (\<not> eligible src \<longrightarrow>
        heap w' t2 = Some src \<and> heap w' t1 = Some src \<and> members w' = v \<and>
        it_value w' = it_value w \<and> clock_reads w' = clock_reads w) \<and>
     (eligible src \<and> \<not> due_at (next_reading w) src \<longrightarrow>
        heap w' t2 = Some src \<and> heap w' t1 = Some src \<and>
        t2 \<in> set (members w') \<and> count_list (members w') t2 = Suc (count_list v t2) \<and>
        (t1 \<in> set (members w') \<longleftrightarrow> t1 \<in> set v) \<and>
        TimerFired t1 \<notin> set tr \<and> TimerFired t2 \<notin> set tr \<and>
        (\<exists>w2. Timer_dtor Timer_OnExpire t1 w' = Some (Returns w2) \<and>
           heap w2 t1 = None \<and> t1 \<notin> set (members w2) \<and>
           heap w2 t2 = Some (if due_at (next_reading w') src then fired src else src) \<and>
           (t2 \<in> set (members w2) \<longleftrightarrow> \<not> due_at (next_reading w') src))) \<and>
     (eligible src \<and> due_at (next_reading w) src \<longrightarrow>
        TimerFired t2 \<in> set tr \<and> heap w' t2 = Some (fired src) \<and> t2 \<notin> set (members w') \<and>
        (t1 \<in> set v \<longrightarrow>
           TimerFired t1 \<in> set tr \<and> heap w' t1 = Some (fired src) \<and>
           t1 \<notin> set (members w')))) \<and>
    (\<forall>(u::world) vu. spTimers u = Some vu \<and> (\<forall>p\<in>set vu. heap u p \<noteq> None) \<and>
       (\<forall>tv. \<not> setitimer_fails u tv) \<and> t2 \<in> set vu \<and> heap u t2 = Some src \<and>
       sint (mExpires src - next_reading u) \<le> 0 \<longrightarrow>
       (\<exists>u' tr. Reschedule Timer_OnExpire u = Some (Returns u') \<and> trace u' = trace u @ tr \<and>
          TimerFired t2 \<in> set tr \<and> t2 \<notin> set (members u') \<and>
          heap u' t2 = Some (src\<lparr>mExpired := True\<rparr>)))"
proof (rule conjI)
  let ?now = "next_reading w"
  from Timer_copy_default [OF sp live src ne os] obtain w' tr where
    st: "Timer_copy Timer_OnExpire t2 t1 w =
       (if eligible src
        then Timers_Add Timer_OnExpire t2
               (TRACE [copy_trace t2 t1 src] (w\<lparr>heap := (heap w)(t2 \<mapsto> src)\<rparr>))
        else Some (Returns (TRACE [copy_trace t2 t1 src] (w\<lparr>heap := (heap w)(t2 \<mapsto> src)\<rparr>))))"
    and r: "Timer_copy Timer_OnExpire t2 t1 w = Some (Returns w')"
    and tr: "trace w' = trace w @ tr"
    and h2: "heap w' t2 = Some (if eligible src \<and> due_at ?now src then fired src else src)"
    and h1: "heap w' t1 =
       Some (if eligible src \<and> t1 \<in> set v \<and> due_at ?now src then fired src else src)"
    and el: "eligible src \<longrightarrow>
        (t2 \<in> set (members w') \<longleftrightarrow> \<not> due_at ?now src) \<and>
        (\<not> due_at ?now src \<longrightarrow> count_list (members w') t2 = Suc (count_list v t2)) \<and>
        clock_reads w' = Suc (clock_reads w)"
    and nel: "\<not> eligible src \<longrightarrow>
        members w' = v \<and> it_value w' = it_value w \<and> clock_reads w' = clock_reads w"
    and m1: "t1 \<in> set (members w') \<longleftrightarrow> t1 \<in> set v \<and> \<not> (eligible src \<and> due_at ?now src)"
    and f2: "TimerFired t2 \<in> set tr \<longleftrightarrow> eligible src \<and> due_at ?now src"
    and f1: "TimerFired t1 \<in> set tr \<longleftrightarrow> eligible src \<and> t1 \<in> set v \<and> due_at ?now src"
    and sp': "spTimers w' = Some (members w')"
    and live': "\<forall>p\<in>set (members w'). heap w' p \<noteq> None"
    and os': "setitimer_fails w' = setitimer_fails w"
    by blast
  have c1: "heap w' t2 = Some src \<and> heap w' t1 = Some src \<and> members w' = v \<and>
        it_value w' = it_value w \<and> clock_reads w' = clock_reads w"
    if "\<not> eligible src"
    using that h2 h1 nel by simp
  have c2: "heap w' t2 = Some src \<and> heap w' t1 = Some src \<and>
        t2 \<in> set (members w') \<and> count_list (members w') t2 = Suc (count_list v t2) \<and>
        (t1 \<in> set (members w') \<longleftrightarrow> t1 \<in> set v) \<and>
        TimerFired t1 \<notin> set tr \<and> TimerFired t2 \<notin> set tr \<and>
        (\<exists>w2. Timer_dtor Timer_OnExpire t1 w' = Some (Returns w2) \<and>
           heap w2 t1 = None \<and> t1 \<notin> set (members w2) \<and>
           heap w2 t2 = Some (if due_at (next_reading w') src then fired src else src) \<and>
           (t2 \<in> set (members w2) \<longleftrightarrow> \<not> due_at (next_reading w') src))"
    if h: "eligible src \<and> \<not> due_at ?now src"
  proof -
    from h h2 have t2v: "heap w' t2 = Some src" by simp
    from h el have t2m: "t2 \<in> set (members w')" by simp
    have os'': "\<forall>tv. \<not> setitimer_fails w' tv" using os os' by simp
    from Timer_dtor_keeps_other [OF sp' live' os'' t2m t2v ne]
    have d: "\<exists>w2. Timer_dtor Timer_OnExpire t1 w' = Some (Returns w2) \<and>
           heap w2 t1 = None \<and> t1 \<notin> set (members w2) \<and>
           heap w2 t2 = Some (if due_at (next_reading w') src then fired src else src) \<and>
           (t2 \<in> set (members w2) \<longleftrightarrow> \<not> due_at (next_reading w') src)" .
    from h h1 have "heap w' t1 = Some src" by simp
    moreover from h el have "count_list (members w') t2 = Suc (count_list v t2)" by simp
    moreover from h m1 have "t1 \<in> set (members w') \<longleftrightarrow> t1 \<in> set v" by simp
    moreover from h f1 f2 have "TimerFired t1 \<notin> set tr \<and> TimerFired t2 \<notin> set tr" by simp
    ultimately show ?thesis using t2v t2m d by (simp only: simp_thms)
  qed
  have c3: "TimerFired t2 \<in> set tr \<and> heap w' t2 = Some (fired src) \<and> t2 \<notin> set (members w') \<and>
        (t1 \<in> set v \<longrightarrow>
           TimerFired t1 \<in> set tr \<and> heap w' t1 = Some (fired src) \<and>
           t1 \<notin> set (members w'))"
    if h: "eligible src \<and> due_at ?now src"
    using h h2 h1 el m1 f1 f2 by simp
  from st r tr h2 h1 m1 f2 f1 c1 c2 c3
  show "\<exists>w' tr.
     Timer_copy Timer_OnExpire t2 t1 w =
       (if eligible src
        then Timers_Add Timer_OnExpire t2
               (TRACE [copy_trace t2 t1 src] (w\<lparr>heap := (heap w)(t2 \<mapsto> src)\<rparr>))
        else Some (Returns (TRACE [copy_trace t2 t1 src] (w\<lparr>heap := (heap w)(t2 \<mapsto> src)\<rparr>)))) \<and>
     Timer_copy Timer_OnExpire t2 t1 w = Some (Returns w') \<and>
     trace w' = trace w @ tr \<and>
     heap w' t2 = Some (if eligible src \<and> due_at ?now src then fired src else src) \<and>
     heap w' t1 =
       Some (if eligible src \<and> t1 \<in> set v \<and> due_at ?now src then fired src else src) \<and>
     (t1 \<in> set (members w') \<longleftrightarrow> t1 \<in> set v \<and> \<not> (eligible src \<and> due_at ?now src)) \<and>
     (TimerFired t2 \<in> set tr \<longleftrightarrow> eligible src \<and> due_at ?now src) \<and>
     (TimerFired t1 \<in> set tr \<longleftrightarrow> eligible src \<and> t1 \<in> set v \<and> due_at ?now src) \<and>
     (\<not> eligible src \<longrightarrow>
        heap w' t2 = Some src \<and> heap w' t1 = Some src \<and> members w' = v \<and>
        it_value w' = it_value w \<and> clock_reads w' = clock_reads w) \<and>
     (eligible src \<and> \<not> due_at ?now src \<longrightarrow>
        heap w' t2 = Some src \<and> heap w' t1 = Some src \<and>
        t2 \<in> set (members w') \<and> count_list (members w') t2 = Suc (count_list v t2) \<and>
        (t1 \<in> set (members w') \<longleftrightarrow> t1 \<in> set v) \<and>
        TimerFired t1 \<notin> set tr \<and> TimerFired t2 \<notin> set tr \<and>
        (\<exists>w2. Timer_dtor Timer_OnExpire t1 w' = Some (Returns w2) \<and>
           heap w2 t1 = None \<and> t1 \<notin> set (members w2) \<and>
           heap w2 t2 = Some (if due_at (next_reading w') src then fired src else src) \<and>
           (t2 \<in> set (members w2) \<longleftrightarrow> \<not> due_at (next_reading w') src))) \<and>
     (eligible src \<and> due_at ?now src \<longrightarrow>
        TimerFired t2 \<in> set tr \<and> heap w' t2 = Some (fired src) \<and> t2 \<notin> set (members w') \<and>
        (t1 \<in> set v \<longrightarrow>
           TimerFired t1 \<in> set tr \<and> heap w' t1 = Some (fired src) \<and>
           t1 \<notin> set (members w')))"
    by (intro exI [of _ w'] exI [of _ tr]) blast
next
  show "\<forall>(u::world) vu. spTimers u = Some vu \<and> (\<forall>p\<in>set vu. heap u p \<noteq> None) \<and>
       (\<forall>tv. \<not> setitimer_fails u tv) \<and> t2 \<in> set vu \<and> heap u t2 = Some src \<and>
       sint (mExpires src - next_reading u) \<le> 0 \<longrightarrow>
       (\<exists>u' tr. Reschedule Timer_OnExpire u = Some (Returns u') \<and> trace u' = trace u @ tr \<and>
          TimerFired t2 \<in> set tr \<and> t2 \<notin> set (members u') \<and>
          heap u' t2 = Some (src\<lparr>mExpired := True\<rparr>))"
    using due_member_fires by blast
qed

lemma overdue_copy_run:
  "Timer_copy Timer_OnExpire 3 2 overdue_world = Some (Returns overdue_copied)"
  by (simp add: run_defs overdue_world_def overdue_copied_def fun_eq_iff)

lemma two_timers_copy_reading:
  "\<exists>w''. Timer_copy Timer_OnExpire 3 2 two_timers = Some (Returns w'') \<and>
      next_reading w'' = 1000000"
  by (simp add: run_defs two_timers_def next_reading_def)

text \<open>
  The claim as stated fails when \<open>t1\<close> is overdue and not yet dispatched: the
  \<open>Reschedule\<close> inside the copy dispatches \<open>t1\<close>, so the copy changes \<open>t1\<close>'s \<open>expired\<close>
  flag and its membership.
\<close>

theorem copy_of_overdue_source:
  "heap overdue_world 2 = Some \<lparr>mExpires = 999999, mExpired = False\<rparr> \<and>
   2 \<in> set (members overdue_world) \<and>
   Timer_copy Timer_OnExpire 3 2 overdue_world = Some (Returns overdue_copied) \<and>
   heap overdue_copied 2 = Some \<lparr>mExpires = 999999, mExpired = True\<rparr> \<and>
   2 \<notin> set (members overdue_copied)"
  using overdue_copy_run
  by (simp add: overdue_world_def overdue_copied_def members_def)

theorem Timer_copy_spec_witness:
  "(\<exists>w'. Timer_copy Timer_OnExpire 3 2 two_timers = Some (Returns w') \<and>
     heap w' 3 = Some \<lparr>mExpires = 3500000, mExpired = False\<rparr> \<and>
     heap w' 2 = Some \<lparr>mExpires = 3500000, mExpired = False\<rparr> \<and>
     2 \<in> set (members w') \<and> 3 \<in> set (members w') \<and>
     (\<exists>w2. Timer_dtor Timer_OnExpire 2 w' = Some (Returns w2) \<and> heap w2 2 = None \<and>
        heap w2 3 = Some \<lparr>mExpires = 3500000, mExpired = False\<rparr> \<and> 3 \<in> set (members w2))) \<and>
   (\<exists>w'. Timer_copy Timer_OnExpire 3 2 overdue_world = Some (Returns w') \<and>
     heap w' 3 = Some \<lparr>mExpires = 999999, mExpired = True\<rparr> \<and>
     heap w' 2 = Some \<lparr>mExpires = 999999, mExpired = True\<rparr> \<and>
     2 \<notin> set (members w') \<and> 3 \<notin> set (members w') \<and>
     TimerFired 2 \<in> set (trace w') \<and> TimerFired 3 \<in> set (trace w'))"
proof -
  let ?X = "\<lparr>mExpires = 3500000, mExpired = False\<rparr>"
  let ?Y = "\<lparr>mExpires = 999999, mExpired = False\<rparr>"
  have sp: "spTimers two_timers = Some [1, 2]" by (simp add: two_timers_def)
  have live: "\<forall>p\<in>set [1, 2]. heap two_timers p \<noteq> None" by (simp add: two_timers_def)
  have src: "heap two_timers 2 = Some ?X"
    by (simp add: two_timers_def)
  have ne: "(3::nat) \<noteq> 2" by simp
  have os: "\<forall>tv. \<not> setitimer_fails two_timers tv" by (simp add: two_timers_def base_world_def)
  have h: "eligible ?X \<and> \<not> due_at (next_reading two_timers) ?X"
    by (simp add: next_reading_def two_timers_def base_world_def eligible_def due_at_def)
  from Timer_copy_spec [OF sp live src ne os, THEN conjunct1] obtain w' tr where
    r: "Timer_copy Timer_OnExpire 3 2 two_timers = Some (Returns w')"
    and c: "eligible ?X \<and> \<not> due_at (next_reading two_timers) ?X \<longrightarrow>
        heap w' 3 = Some ?X \<and> heap w' 2 = Some ?X \<and>
        3 \<in> set (members w') \<and> count_list (members w') 3 = Suc (count_list [1, 2] (3::nat)) \<and>
        (2 \<in> set (members w') \<longleftrightarrow> 2 \<in> set [1, 2::nat]) \<and>
        TimerFired 2 \<notin> set tr \<and> TimerFired 3 \<notin> set tr \<and>
        (\<exists>w2. Timer_dtor Timer_OnExpire 2 w' = Some (Returns w2) \<and>
           heap w2 2 = None \<and> 2 \<notin> set (members w2) \<and>
           heap w2 3 = Some (if due_at (next_reading w') ?X then fired ?X else ?X) \<and>
           (3 \<in> set (members w2) \<longleftrightarrow> \<not> due_at (next_reading w') ?X))"
    by (elim exE conjE) (rule that; assumption)
  from c h have f: "heap w' 3 = Some ?X" "heap w' 2 = Some ?X"
      "2 \<in> set (members w')" "3 \<in> set (members w')"
    and d: "\<exists>w2. Timer_dtor Timer_OnExpire 2 w' = Some (Returns w2) \<and>
           heap w2 2 = None \<and> 2 \<notin> set (members w2) \<and>
           heap w2 3 = Some (if due_at (next_reading w') ?X then fired ?X else ?X) \<and>
           (3 \<in> set (members w2) \<longleftrightarrow> \<not> due_at (next_reading w') ?X)"
    by simp_all
  from two_timers_copy_reading r have n: "next_reading w' = 1000000" by auto
  have nd: "\<not> due_at (next_reading w') ?X" unfolding n by (simp add: due_at_def)
  from d nd have "\<exists>w2. Timer_dtor Timer_OnExpire 2 w' = Some (Returns w2) \<and> heap w2 2 = None \<and>
            heap w2 3 = Some ?X \<and> 3 \<in> set (members w2)"
    by (simp only: if_False simp_thms) blast
  with r f have first: "\<exists>w'. Timer_copy Timer_OnExpire 3 2 two_timers = Some (Returns w') \<and>
     heap w' 3 = Some ?X \<and> heap w' 2 = Some ?X \<and>
     2 \<in> set (members w') \<and> 3 \<in> set (members w') \<and>
     (\<exists>w2. Timer_dtor Timer_OnExpire 2 w' = Some (Returns w2) \<and> heap w2 2 = None \<and>
        heap w2 3 = Some ?X \<and> 3 \<in> set (members w2))"
    by blast
  have sp2: "spTimers overdue_world = Some [1, 2]" by (simp add: overdue_world_def)
  have live2: "\<forall>p\<in>set [1, 2]. heap overdue_world p \<noteq> None" by (simp add: overdue_world_def)
  have src2: "heap overdue_world 2 = Some ?Y"
    by (simp add: overdue_world_def)
  have os2: "\<forall>tv. \<not> setitimer_fails overdue_world tv"
    by (simp add: overdue_world_def base_world_def)
  have h2: "eligible ?Y \<and> due_at (next_reading overdue_world) ?Y"
    by (simp add: next_reading_def overdue_world_def base_world_def eligible_def due_at_def)
  have tr0: "trace overdue_world = []" by (simp add: overdue_world_def base_world_def)
  from Timer_copy_spec [OF sp2 live2 src2 ne os2, THEN conjunct1] obtain u tr2 where
    r2: "Timer_copy Timer_OnExpire 3 2 overdue_world = Some (Returns u)"
    and t2: "trace u = trace overdue_world @ tr2"
    and c2: "eligible ?Y \<and> due_at (next_reading overdue_world) ?Y \<longrightarrow>
        TimerFired 3 \<in> set tr2 \<and> heap u 3 = Some (fired ?Y) \<and> 3 \<notin> set (members u) \<and>
        (2 \<in> set [1, 2::nat] \<longrightarrow>
           TimerFired 2 \<in> set tr2 \<and> heap u 2 = Some (fired ?Y) \<and> 2 \<notin> set (members u))"
    by (elim exE conjE) (rule that; assumption)
  from c2 h2 have "TimerFired 3 \<in> set tr2 \<and> heap u 3 = Some (fired ?Y) \<and> 3 \<notin> set (members u) \<and>
        TimerFired 2 \<in> set tr2 \<and> heap u 2 = Some (fired ?Y) \<and> 2 \<notin> set (members u)"
    by simp
  with r2 t2 tr0 have second: "\<exists>w'. Timer_copy Timer_OnExpire 3 2 overdue_world = Some (Returns w') \<and>
     heap w' 3 = Some \<lparr>mExpires = 999999, mExpired = True\<rparr> \<and>
     heap w' 2 = Some \<lparr>mExpires = 999999, mExpired = True\<rparr> \<and>
     2 \<notin> set (members w') \<and> 3 \<notin> set (members w') \<and>
     TimerFired 2 \<in> set (trace w') \<and> TimerFired 3 \<in> set (trace w')"
    by (intro exI [of _ u]) (simp add: fired_def)
  from first second show ?thesis ..
qed

text \<open>
  C10: \<open>Reschedule\<close> stores \<open>false\<close> to the reschedule-requested flag before it reads the
  clock and before it scans the set, and never writes the flag again. So a notification
  delivered before \<open>Reschedule\<close> starts is consumed by it; without a later notification
  the flag is clear when \<open>Reschedule\<close> returns; and, with \<open>Timer::OnExpire\<close> as the
  callback of every member, a notification delivered at any point that a run of
  \<open>Reschedule\<close> comes to after the store (before the clock is read, before the expiry
  loop, during the callback of a member that is due, between the expiry and the selection
  loop, after \<open>setitimer\<close>) leaves the flag set when \<open>Reschedule\<close> returns. The next
  \<open>PollIfNeeded\<close> is then a call of \<open>Reschedule\<close>, which returns with the flag clear and
  has dispatched every member that is due at its own, later clock reading.
\<close>

theorem Reschedule_keeps_late_notification:
  assumes sp: "spTimers w = Some v" and live: "\<forall>p\<in>set v. heap w p \<noteq> None"
    and os: "\<forall>tv. \<not> setitimer_fails w tv"
    and at: "reached pt (next_reading w) w"
  shows "(\<forall>OnExpire. Reschedule OnExpire (SignalHandler w) = Reschedule OnExpire w) \<and>
    (\<forall>OnExpire. Reschedule_notified None OnExpire w = Reschedule OnExpire w) \<and>
    (\<exists>w0. Reschedule Timer_OnExpire w = Some (Returns w0) \<and> \<not> sRescheduleNeeded w0) \<and>
    (\<exists>w'. Reschedule_notified (Some pt) Timer_OnExpire w = Some (Returns w') \<and>
       sRescheduleNeeded w' \<and>
       PollIfNeeded Timer_OnExpire w' = Reschedule Timer_OnExpire w' \<and>
       (\<exists>w'' tr. Reschedule Timer_OnExpire w' = Some (Returns w'') \<and>
          trace w'' = trace w' @ tr \<and> \<not> sRescheduleNeeded w'' \<and>
          (\<forall>p\<in>set (members w'). expired_at (next_reading w') (heap w') p \<longrightarrow>
             TimerHasExpired p \<in> set tr \<and> TimerFired p \<in> set tr \<and>
             p \<notin> set (members w'') \<and> map_option mExpired (heap w'' p) = Some True)))"
proof -
  let ?now = "next_reading w"
  have consumed: "\<forall>OnExpire. Reschedule OnExpire (SignalHandler w) = Reschedule OnExpire w"
    using sp by (simp add: Reschedule_def SignalHandler_def RequestReschedule_def)
  have none: "\<forall>OnExpire. Reschedule_notified None OnExpire w = Reschedule OnExpire w"
    by (simp add: Reschedule_notified_None)
  from Reschedule_default [OF sp live os] have
    quiet: "\<exists>w0. Reschedule Timer_OnExpire w = Some (Returns w0) \<and> \<not> sRescheduleNeeded w0"
    by blast
  let ?v' = "filter (\<lambda>p. \<not> expired_at ?now (heap w) p) v"
  from Reschedule_notified_default [OF sp live os, of "Some pt"] obtain w' where
    r: "Reschedule_notified (Some pt) Timer_OnExpire w = Some (Returns w')"
    and sp': "spTimers w' = Some ?v'"
    and h': "heap w' = fire_all ?now (heap w) v"
    and fl: "sRescheduleNeeded w' \<longleftrightarrow> (\<exists>p. Some pt = Some p \<and> reached p ?now w)"
    and os': "setitimer_fails w' = setitimer_fails w"
    by blast
  have flag: "sRescheduleNeeded w'"
    using fl at by simp
  have poll: "PollIfNeeded Timer_OnExpire w' = Reschedule Timer_OnExpire w'"
    using flag by (simp add: PollIfNeeded_def)
  have live': "\<forall>p\<in>set ?v'. heap w' p \<noteq> None"
    using live h' by (simp add: fire_all_live)
  have os'': "\<forall>tv. \<not> setitimer_fails w' tv"
    using os os' by simp
  let ?now' = "next_reading w'"
  from Reschedule_default [OF sp' live' os''] obtain w'' tr where
    r2: "Reschedule Timer_OnExpire w' = Some (Returns w'')"
    and sp2: "spTimers w'' = Some (filter (\<lambda>p. \<not> expired_at ?now' (heap w') p) ?v')"
    and h2: "heap w'' = fire_all ?now' (heap w') ?v'"
    and tr: "trace w'' = trace w' @ tr"
    and fired: "\<forall>x. TimerFired x \<in> set tr \<longleftrightarrow> x \<in> set ?v' \<and> expired_at ?now' (heap w') x"
    and has: "\<forall>x. TimerHasExpired x \<in> set tr \<longleftrightarrow> x \<in> set ?v' \<and> expired_at ?now' (heap w') x"
    and fl2: "sRescheduleNeeded w'' = False"
    by blast
  have due: "TimerHasExpired p \<in> set tr \<and> TimerFired p \<in> set tr \<and>
             p \<notin> set (members w'') \<and> map_option mExpired (heap w'' p) = Some True"
    if "p \<in> set (members w')" and "expired_at ?now' (heap w') p" for p
  proof -
    from that(1) sp' have m: "p \<in> set ?v'" by (simp add: members_def)
    from that(2) obtain t where "heap w' p = Some t"
      by (auto simp: expired_at_def split: option.splits)
    with m that(2) show ?thesis
      using fired has sp2 h2 by (simp add: members_def fire_all_def)
  qed
  have second: "\<exists>w'' tr. Reschedule Timer_OnExpire w' = Some (Returns w'') \<and>
          trace w'' = trace w' @ tr \<and> \<not> sRescheduleNeeded w'' \<and>
          (\<forall>p\<in>set (members w'). expired_at ?now' (heap w') p \<longrightarrow>
             TimerHasExpired p \<in> set tr \<and> TimerFired p \<in> set tr \<and>
             p \<notin> set (members w'') \<and> map_option mExpired (heap w'' p) = Some True)"
    using r2 tr fl2 due by blast
  from r flag poll second have
    late: "\<exists>w'. Reschedule_notified (Some pt) Timer_OnExpire w = Some (Returns w') \<and>
       sRescheduleNeeded w' \<and>
       PollIfNeeded Timer_OnExpire w' = Reschedule Timer_OnExpire w' \<and>
       (\<exists>w'' tr. Reschedule Timer_OnExpire w' = Some (Returns w'') \<and>
          trace w'' = trace w' @ tr \<and> \<not> sRescheduleNeeded w'' \<and>
          (\<forall>p\<in>set (members w'). expired_at (next_reading w') (heap w') p \<longrightarrow>
             TimerHasExpired p \<in> set tr \<and> TimerFired p \<in> set tr \<and>
             p \<notin> set (members w'') \<and> map_option mExpired (heap w'' p) = Some True))"
    by blast
  from consumed none quiet late show ?thesis
    by (intro conjI)
qed

lemma late_clock_run:
  "\<exists>w'. Reschedule_notified (Some (DuringOnExpire 2)) Timer_OnExpire late_clock =
       Some (Returns w') \<and>
     members w' = [3] \<and> next_reading w' = 4000000 \<and>
     heap w' 3 = Some \<lparr>mExpires = 2000000, mExpired = False\<rparr>"
  by (simp add: Reschedule_notified_def late_clock_def due_world_def run_defs notified_def
      notify_result_def arrives_def SignalHandler_def RequestReschedule_def next_reading_def)

theorem Reschedule_keeps_late_notification_witness:
  "\<exists>w'. Reschedule_notified (Some (DuringOnExpire 2)) Timer_OnExpire late_clock =
       Some (Returns w') \<and>
     sRescheduleNeeded w' \<and> members w' = [3] \<and>
     (\<exists>w'' tr. PollIfNeeded Timer_OnExpire w' = Some (Returns w'') \<and>
        trace w'' = trace w' @ tr \<and> TimerFired 3 \<in> set tr \<and>
        3 \<notin> set (members w'') \<and> \<not> sRescheduleNeeded w'')"
proof -
  have sp: "spTimers late_clock = Some [1, 2, 3]"
    by (simp add: late_clock_def due_world_def)
  have live: "\<forall>p\<in>set [1, 2, 3]. heap late_clock p \<noteq> None"
    by (simp add: late_clock_def due_world_def)
  have os: "\<forall>tv. \<not> setitimer_fails late_clock tv"
    by (simp add: late_clock_def due_world_def base_world_def)
  have at: "reached (DuringOnExpire 2) (next_reading late_clock) late_clock"
    by (simp add: reached_def next_reading_def late_clock_def due_world_def base_world_def
        members_def expired_at_def)
  from Reschedule_keeps_late_notification [OF sp live os at] obtain w' w'' tr where
    r: "Reschedule_notified (Some (DuringOnExpire 2)) Timer_OnExpire late_clock = Some (Returns w')"
    and flag: "sRescheduleNeeded w'"
    and poll: "PollIfNeeded Timer_OnExpire w' = Reschedule Timer_OnExpire w'"
    and r2: "Reschedule Timer_OnExpire w' = Some (Returns w'')"
    and tr: "trace w'' = trace w' @ tr"
    and fl2: "\<not> sRescheduleNeeded w''"
    and due: "\<forall>p\<in>set (members w'). expired_at (next_reading w') (heap w') p \<longrightarrow>
             TimerHasExpired p \<in> set tr \<and> TimerFired p \<in> set tr \<and>
             p \<notin> set (members w'') \<and> map_option mExpired (heap w'' p) = Some True"
    by blast
  from late_clock_run r have m: "members w' = [3]" and now: "next_reading w' = 4000000"
    and h3: "heap w' 3 = Some \<lparr>mExpires = 2000000, mExpired = False\<rparr>"
    by auto
  have e3: "expired_at (next_reading w') (heap w') 3"
    unfolding now by (simp add: expired_at_def h3)
  from due m e3 have "TimerFired 3 \<in> set tr \<and> 3 \<notin> set (members w'')"
    by simp
  with r flag m poll r2 tr fl2 show ?thesis
    by (intro exI [of _ w'] conjI exI [of _ w''] exI [of _ tr]) simp_all
qed

end
